theory Spec2Isabelle
  imports Main "HOL-Library.Word"
begin

section \<open>Managed memory layouts (Objects/layoutobject.c)\<close>

subsection \<open>Data model\<close>

text \<open>
  Pointers are addresses; a pointer that may be \<open>NULL\<close> is an \<open>addr option\<close>.
  Type objects, instances and layout objects live at addresses. Type identity is
  pointer equality, as in the C code.
\<close>

type_synonym addr = nat

text \<open>\<open>struct _layout_entry\<close>: a borrowed type pointer and an \<open>int32_t\<close> offset.\<close>

record PyLayoutEntry =
  le_type :: "addr option"
  le_offset :: "32 word"

text \<open>The two functions a \<open>ly_cast\<close> slot can point to.\<close>

datatype layoutfunc = CastOrdered | CastHash

text \<open>
  \<open>struct _layout\<close>. The entry table follows the struct in the same allocation
  (\<open>&layout[1]\<close>); \<open>Py_SIZE(layout)\<close> is the number of entries allocated.
\<close>

record PyLayout =
  ly_entries :: "PyLayoutEntry list"
  ly_allocsize :: int
  ly_extensionsize :: int
  ly_cast :: layoutfunc
  ly_id :: "32 word"
  ly_order :: "32 word"
  ly_shift :: "32 word"
  ly_search :: "32 word"

definition Py_SIZE :: "PyLayout \<Rightarrow> nat" where
  "Py_SIZE l = length (ly_entries l)"

text \<open>The three type features \<open>_layout_base\<close> asks \<open>PyType_HasFeature\<close> about.\<close>

datatype tpflag = Py_TPFLAGS_MANAGED_DICT | Py_TPFLAGS_HAVE_GC | Py_TPFLAGS_MANAGED_WEAKREF

text \<open>
  The memory the code works on: for every type object its \<open>tp_cache\<close> slot (the
  layout pointer read by the macro \<open>Py_LAYOUT\<close>) and its feature flags; for every
  object its type (\<open>Py_TYPE\<close>); the store of layout objects, and the address the
  allocator hands out next. The last field keeps, in the order they happen, the
  stores made through a layout pointer to an entry index that is not in the table
  of that layout: pointer, index and the entry written. Such a store goes past the
  block the layout was allocated in; the code does not test for it and carries on.
  What lies behind the block is not part of this memory, so the store changes
  nothing else here.
\<close>

record mem =
  tp_cache :: "addr \<Rightarrow> addr option"
  tp_flags :: "addr \<Rightarrow> tpflag set"
  ob_type :: "addr \<Rightarrow> addr"
  heap :: "addr \<Rightarrow> PyLayout"
  brk :: addr
  stray :: "(addr \<times> nat \<times> PyLayoutEntry) list"

definition Py_LAYOUT :: "mem \<Rightarrow> addr \<Rightarrow> addr option" where
  "Py_LAYOUT m t = tp_cache m t"

definition Py_TYPE :: "mem \<Rightarrow> addr \<Rightarrow> addr" where
  "Py_TYPE m obj = ob_type m obj"

text \<open>
  Where the code would read past the end of a table, take a remainder by zero,
  dereference \<open>NULL\<close> or shift by 32 or more, the result is a fault.
\<close>

datatype fault = OutOfBounds | DivisionByZero | NullPointer | ShiftRange

subsection \<open>Lookups\<close>

text \<open>
  \<open>_layout_cast_ordered\<close>. The result is the address \<open>&bytes[le_offset]\<close>, or
  \<open>None\<close> for \<open>NULL\<close>.
\<close>

definition layout_cast_ordered :: "mem \<Rightarrow> addr \<Rightarrow> addr \<Rightarrow> addr \<Rightarrow> fault + int option" where
  "layout_cast_ordered m layout obj type =
     (let nentries = Py_SIZE (heap m layout);
          entries = ly_entries (heap m layout)
      in case Py_LAYOUT m type of
           None \<Rightarrow> Inl NullPointer
         | Some typelayout \<Rightarrow>
             (let requested = ly_order (heap m typelayout)
              in if unat requested \<ge> nentries
                    \<or> le_type (entries ! unat requested) \<noteq> Some type
                 then Inr None
                 else Inr (Some (int obj + sint (le_offset (entries ! unat requested))))))"

text \<open>
  The \<open>for\<close> loop of \<open>_layout_cast_hash\<close>; the last argument counts the iterations
  left (\<open>ly_search - i\<close>).
\<close>

fun cast_hash_loop :: "PyLayoutEntry list \<Rightarrow> addr \<Rightarrow> addr \<Rightarrow> 32 word \<Rightarrow> nat \<Rightarrow> fault + int option" where
  "cast_hash_loop entries obj type requested 0 = Inr None"
| "cast_hash_loop entries obj type requested (Suc n) =
     (if unat requested \<ge> length entries then Inl OutOfBounds
      else if le_type (entries ! unat requested) = Some type
      then Inr (Some (int obj + sint (le_offset (entries ! unat requested))))
      else (let requested1 = requested + 1;
                requested2 = (if unat requested1 = length entries then 0 else requested1)
            in cast_hash_loop entries obj type requested2 n))"

definition layout_cast_hash :: "mem \<Rightarrow> addr \<Rightarrow> addr \<Rightarrow> addr \<Rightarrow> fault + int option" where
  "layout_cast_hash m layout obj type =
     (let nentries = Py_SIZE (heap m layout);
          entries = ly_entries (heap m layout)
      in case Py_LAYOUT m type of
           None \<Rightarrow> Inl NullPointer
         | Some typelayout \<Rightarrow>
             (let requested = ly_id (heap m typelayout)
              in if unat (ly_shift (heap m layout)) \<ge> 32 then Inl ShiftRange
                 else if nentries = 0 then Inl DivisionByZero
                 else (let requested1 = drop_bit (unat (ly_shift (heap m layout))) requested;
                           requested2 = (word_of_nat (unat requested1 mod nentries) :: 32 word)
                       in cast_hash_loop entries obj type requested2
                            (unat (ly_search (heap m layout))))))"

text \<open>The call through the function pointer \<open>ly_cast\<close>.\<close>

definition call_ly_cast :: "layoutfunc \<Rightarrow> mem \<Rightarrow> addr \<Rightarrow> addr \<Rightarrow> addr \<Rightarrow> fault + int option" where
  "call_ly_cast f m layout obj type =
     (case f of CastOrdered \<Rightarrow> layout_cast_ordered m layout obj type
              | CastHash \<Rightarrow> layout_cast_hash m layout obj type)"

definition PyObject_GetTypeData :: "mem \<Rightarrow> addr \<Rightarrow> addr \<Rightarrow> fault + int option" where
  "PyObject_GetTypeData m obj type =
     (case Py_LAYOUT m (Py_TYPE m obj) of
        None \<Rightarrow> Inr None
      | Some objlayout \<Rightarrow>
          (case Py_LAYOUT m type of
             None \<Rightarrow> Inr None
           | Some typelayout \<Rightarrow>
               call_ly_cast (ly_cast (heap m objlayout)) m objlayout obj type))"

definition PyType_GetTypeDataSize :: "mem \<Rightarrow> addr \<Rightarrow> int" where
  "PyType_GetTypeDataSize m cls =
     (case Py_LAYOUT m cls of None \<Rightarrow> 0 | Some typelayout \<Rightarrow> ly_extensionsize (heap m typelayout))"

subsection \<open>The dictionary of collected layouts\<close>

text \<open>
  Modelled from the spec: the dictionary that \<open>_layout_collect\<close> fills and the
  other functions read (\<open>PyDict_SetItem\<close>, \<open>PyDict_Next\<close>, \<open>PyObject_Size\<close>) is
  not among the sources of the layout module. The specification has it as a mapping
  from each base type that has a layout to that layout, in which a layout reached
  twice takes one slot. It is an association list from type pointers to layout
  pointers in insertion order: \<open>PyDict_SetItem\<close> replaces the value of a key that is
  present and appends a key that is not; \<open>PyDict_Next\<close> walks the items in that
  order with a cursor \<open>pos\<close>, and returns 0 (here \<open>None\<close>), leaving the cursor
  where it is, once the cursor has reached the end.
\<close>

type_synonym pydict = "(addr \<times> addr) list"

definition PyDict_SetItem :: "pydict \<Rightarrow> addr \<Rightarrow> addr \<Rightarrow> pydict" where
  "PyDict_SetItem d k v =
     (if k \<in> fst ` set d then map (\<lambda>(k', v'). if k' = k then (k', v) else (k', v')) d
      else d @ [(k, v)])"

definition PyDict_Next :: "pydict \<Rightarrow> nat \<Rightarrow> ((addr \<times> addr) \<times> nat) option" where
  "PyDict_Next d pos = (if pos < length d then Some (d ! pos, Suc pos) else None)"

text \<open>
  A loop \<open>while (PyDict_Next(layouts, &pos, &key, &value))\<close> that starts with the
  cursor at \<open>pos\<close> visits the items \<open>dict_items_from d pos\<close> in order and leaves the
  cursor at \<open>dict_pos_after d pos\<close>.
\<close>

definition dict_items_from :: "pydict \<Rightarrow> nat \<Rightarrow> pydict" where
  "dict_items_from d pos = drop pos d"

definition dict_pos_after :: "pydict \<Rightarrow> nat \<Rightarrow> nat" where
  "dict_pos_after d pos = max pos (length d)"

text \<open>
  What the construction takes from outside: the value of \<open>rand()\<close>, whether
  \<open>PyDict_New\<close> and \<open>PyObject_NewVar\<close> succeed, the content of the entries of
  freshly allocated, uninitialised memory, and the value \<open>PyObject_Size\<close> returns for
  a \<open>NULL\<close> pointer (its error return, \<open>-1\<close> in CPython).
\<close>

record environ =
  rand_value :: "32 word"
  dict_new_ok :: bool
  newvar_ok :: bool
  fresh_entry :: PyLayoutEntry
  null_size :: int

text \<open>\<open>PyObject_Size\<close> of the dictionary, or of the \<open>NULL\<close> pointer.\<close>

definition PyObject_Size :: "environ \<Rightarrow> pydict option \<Rightarrow> int" where
  "PyObject_Size env layouts =
     (case layouts of None \<Rightarrow> null_size env | Some d \<Rightarrow> int (length d))"

text \<open>The loop of \<open>_layout_collect\<close> over the tuple of bases.\<close>

fun layout_collect_loop :: "mem \<Rightarrow> pydict \<Rightarrow> addr list \<Rightarrow> pydict" where
  "layout_collect_loop m dict [] = dict"
| "layout_collect_loop m dict (type # rest) =
     (case Py_LAYOUT m type of
        None \<Rightarrow> layout_collect_loop m dict rest
      | Some l \<Rightarrow> layout_collect_loop m (PyDict_SetItem dict type l) rest)"

definition layout_collect :: "environ \<Rightarrow> mem \<Rightarrow> addr list \<Rightarrow> pydict option" where
  "layout_collect env m tuple =
     (if \<not> dict_new_ok env then None else Some (layout_collect_loop m [] tuple))"

subsection \<open>Ordered check\<close>

text \<open>
  The loop of \<open>_layout_check_ordered\<close>; \<open>buf\<close> is the \<open>char\<close> buffer of \<open>items\<close>
  zeroed bytes. The result is \<open>is_ordered\<close>.
\<close>

fun layout_check_ordered_loop :: "mem \<Rightarrow> nat \<Rightarrow> 8 word list \<Rightarrow> pydict \<Rightarrow> bool" where
  "layout_check_ordered_loop m items buf [] = True"
| "layout_check_ordered_loop m items buf ((key, value) # rest) =
     (let order = ly_order (heap m value)
      in if unat order \<ge> items \<or> sint (buf ! unat order) > 0 then False
         else layout_check_ordered_loop m items (buf[unat order := buf ! unat order + 1]) rest)"

text \<open>
  \<open>_layout_check_ordered\<close>. With a \<open>NULL\<close> dictionary \<open>items\<close> is the error
  return of \<open>PyObject_Size\<close>, \<open>memset(buf, 0, items)\<close> runs over the whole address
  space and \<open>PyDict_Next\<close> reads through the \<open>NULL\<close> pointer: a fault.
\<close>

definition layout_check_ordered :: "mem \<Rightarrow> pydict option \<Rightarrow> fault + bool" where
  "layout_check_ordered m layouts =
     (case layouts of
        None \<Rightarrow> Inl NullPointer
      | Some d \<Rightarrow> Inr (layout_check_ordered_loop m (length d) (replicate (length d) 0) d))"

subsection \<open>Hash parameter search\<close>

text \<open>
  The inner loop of \<open>_layout_fast_hash\<close>,
  \<open>while (buf[position] > 0) { cost0++; position++; if (position == hash_size) position = 0; }\<close>.
  It does not end when no byte of \<open>buf\<close> is free: the result is then \<open>None\<close>.
  The result is the final \<open>position\<close> and \<open>cost0\<close>.
\<close>

partial_function (option) probe_buf ::
  "8 word list \<Rightarrow> nat \<Rightarrow> 32 word \<Rightarrow> int \<Rightarrow> (fault + (32 word \<times> int)) option" where
  "probe_buf buf hash_size position cost0 =
     (if unat position \<ge> length buf then Some (Inl OutOfBounds)
      else if sint (buf ! unat position) > 0
      then probe_buf buf hash_size
             (if unat (position + 1) = hash_size then 0 else position + 1) (cost0 + 1)
      else Some (Inr (position, cost0)))"

declare probe_buf.simps [code]

text \<open>
  The loop \<open>while (PyDict_Next(layouts, &pos, &key, &value))\<close> of
  \<open>_layout_fast_hash\<close> over the items the cursor has not passed yet: it places each
  layout's id in \<open>buf\<close> and adds up the cost.
\<close>

fun fast_hash_place ::
  "mem \<Rightarrow> nat \<Rightarrow> nat \<Rightarrow> 8 word list \<Rightarrow> int \<Rightarrow> pydict \<Rightarrow> (fault + (8 word list \<times> int)) option" where
  "fast_hash_place m hash_size shift buf cost [] = Some (Inr (buf, cost))"
| "fast_hash_place m hash_size shift buf cost ((key, value) # rest) =
     (if hash_size = 0 then Some (Inl DivisionByZero)
      else (case probe_buf buf hash_size
                   (word_of_nat (unat (drop_bit shift (ly_id (heap m value))) mod hash_size)) 1 of
              None \<Rightarrow> None
            | Some (Inl f) \<Rightarrow> Some (Inl f)
            | Some (Inr (position, cost0)) \<Rightarrow>
                fast_hash_place m hash_size shift
                  (buf[unat position := word_of_int cost0]) (cost + cost0) rest))"

text \<open>
  One round of the \<open>for\<close> loop up to the computation of \<open>cost\<close>: clear the buffer,
  place the new id, then place the rest, starting from the cursor \<open>pos\<close>.
\<close>

definition fast_hash_cost ::
  "mem \<Rightarrow> pydict \<Rightarrow> nat \<Rightarrow> 32 word \<Rightarrow> nat \<Rightarrow> nat \<Rightarrow> (fault + int) option" where
  "fast_hash_cost m layouts hash_size new_id pos shift =
     (if hash_size = 0 then Some (Inl DivisionByZero)
      else (let buf = replicate hash_size (0 :: 8 word);
                position = (word_of_nat (unat (drop_bit shift new_id) mod hash_size) :: 32 word)
            in case fast_hash_place m hash_size shift (buf[unat position := 1]) 0
                      (dict_items_from layouts pos) of
                 None \<Rightarrow> None
               | Some (Inl f) \<Rightarrow> Some (Inl f)
               | Some (Inr (buf', cost)) \<Rightarrow> Some (Inr cost)))"

text \<open>
  The \<open>for (int shift = 0; shift<16; ++shift)\<close> loop. The cursor \<open>pos\<close> is declared
  outside the loop and is not reset between rounds.
\<close>

function fast_hash_for ::
  "mem \<Rightarrow> pydict \<Rightarrow> nat \<Rightarrow> 32 word \<Rightarrow> nat \<Rightarrow> int \<Rightarrow> int \<Rightarrow> nat \<Rightarrow> (fault + int) option" where
  "fast_hash_for m layouts hash_size new_id pos best best_cost shift =
     (if \<not> shift < 16 then Some (Inr best)
      else (case fast_hash_cost m layouts hash_size new_id pos shift of
              None \<Rightarrow> None
            | Some (Inl f) \<Rightarrow> Some (Inl f)
            | Some (Inr cost) \<Rightarrow>
                if cost = int (length layouts) then Some (Inr (int shift))
                else if cost < best_cost
                then fast_hash_for m layouts hash_size new_id (dict_pos_after layouts pos)
                       (int shift) cost (Suc shift)
                else fast_hash_for m layouts hash_size new_id (dict_pos_after layouts pos)
                       best best_cost (Suc shift)))"
  by pat_completeness auto
termination
  by (relation "measure (\<lambda>(m, layouts, hash_size, new_id, pos, best, best_cost, shift). 16 - shift)") auto

definition layout_fast_hash :: "mem \<Rightarrow> pydict \<Rightarrow> nat \<Rightarrow> 32 word \<Rightarrow> (fault + int) option" where
  "layout_fast_hash m layouts hash_size new_id =
     fast_hash_for m layouts hash_size new_id 0 0 (int hash_size) 0"

subsection \<open>Filling the table\<close>

text \<open>\<open>sizeof(void*)\<close> on the 64-bit targets.\<close>

definition sizeof_voidp :: "32 word" where
  "sizeof_voidp = 8"

definition PyType_HasFeature :: "mem \<Rightarrow> addr \<Rightarrow> tpflag \<Rightarrow> bool" where
  "PyType_HasFeature m type f = (f \<in> tp_flags m type)"

definition layout_base :: "mem \<Rightarrow> addr \<Rightarrow> 32 word" where
  "layout_base m type =
     (let base0 = 0;
          base1 = (if PyType_HasFeature m type Py_TPFLAGS_MANAGED_DICT then base0 + sizeof_voidp else base0);
          base2 = (if PyType_HasFeature m type Py_TPFLAGS_HAVE_GC then base1 + sizeof_voidp * 2 else base1);
          base3 = (if PyType_HasFeature m type Py_TPFLAGS_MANAGED_WEAKREF then base2 + sizeof_voidp else base2)
      in base3)"

text \<open>A write through a layout pointer, and a write of one table entry.\<close>

definition upd_layout :: "mem \<Rightarrow> addr \<Rightarrow> (PyLayout \<Rightarrow> PyLayout) \<Rightarrow> mem" where
  "upd_layout m p f = m\<lparr>heap := (heap m)(p := f (heap m p))\<rparr>"

definition set_entry :: "mem \<Rightarrow> addr \<Rightarrow> nat \<Rightarrow> PyLayoutEntry \<Rightarrow> mem" where
  "set_entry m p i e = upd_layout m p (\<lambda>l. l\<lparr>ly_entries := (ly_entries l)[i := e]\<rparr>)"

text \<open>
  The store \<open>entries[i].le_type = ...; entries[i].le_offset = ...\<close> of
  \<open>_layout_fill_ordered\<close>, which has no test of \<open>i\<close> against \<open>Py_SIZE(layout)\<close>.
\<close>

definition store_entry :: "mem \<Rightarrow> addr \<Rightarrow> nat \<Rightarrow> PyLayoutEntry \<Rightarrow> mem" where
  "store_entry m p i e =
     (if i < Py_SIZE (heap m p) then set_entry m p i e
      else m\<lparr>stray := stray m @ [(p, i, e)]\<rparr>)"

text \<open>The loop of \<open>_layout_fill_ordered\<close>.\<close>

fun fill_ordered_loop ::
  "addr \<Rightarrow> 32 word \<Rightarrow> mem \<Rightarrow> 32 word \<Rightarrow> pydict \<Rightarrow> mem \<times> 32 word" where
  "fill_ordered_loop layout base m offset [] = (m, offset)"
| "fill_ordered_loop layout base m offset ((key, value) # rest) =
     (let sub_layout = heap m value;
          position = ly_order sub_layout;
          offset1 = offset + word_of_int (ly_extensionsize sub_layout)
      in fill_ordered_loop layout base
           (store_entry m layout (unat position)
              \<lparr>le_type = Some key, le_offset = - base - offset1\<rparr>)
           offset1 rest)"

definition layout_fill_ordered :: "mem \<Rightarrow> addr \<Rightarrow> addr \<Rightarrow> pydict \<Rightarrow> mem" where
  "layout_fill_ordered m layout type layouts =
     (case fill_ordered_loop layout (layout_base m type) m 0 layouts of
        (m', offset) \<Rightarrow> upd_layout m' layout (\<lambda>l. l\<lparr>ly_allocsize := sint offset\<rparr>))"

text \<open>
  The inner loop of \<open>_layout_fill_hash\<close>,
  \<open>while (entries[position].le_type != NULL) { cost++; position++; if (position==hash_size) position = 0; }\<close>.
  It does not end when no entry is free.
\<close>

partial_function (option) probe_entries ::
  "PyLayoutEntry list \<Rightarrow> nat \<Rightarrow> 32 word \<Rightarrow> 32 word \<Rightarrow> (fault + (32 word \<times> 32 word)) option" where
  "probe_entries entries hash_size position cost =
     (if unat position \<ge> length entries then Some (Inl OutOfBounds)
      else if le_type (entries ! unat position) \<noteq> None
      then probe_entries entries hash_size
             (if unat (position + 1) = hash_size then 0 else position + 1) (cost + 1)
      else Some (Inr (position, cost)))"

declare probe_entries.simps [code]

text \<open>
  The rest of the body of the outer loop of \<open>_layout_fill_hash\<close>, after the inner
  loop has found \<open>position\<close> at \<open>cost\<close>: raise \<open>ly_search\<close>, add the extension
  size to \<open>offset\<close>, write the entry.
\<close>

definition fill_hash_store ::
  "addr \<Rightarrow> 32 word \<Rightarrow> mem \<Rightarrow> 32 word \<Rightarrow> addr \<Rightarrow> addr \<Rightarrow> 32 word \<Rightarrow> 32 word \<Rightarrow> mem \<times> 32 word" where
  "fill_hash_store layout base m offset key value position cost =
     (let m1 = (if ly_search (heap m layout) < cost
                then upd_layout m layout (\<lambda>l. l\<lparr>ly_search := cost\<rparr>) else m);
          offset1 = offset + word_of_int (ly_extensionsize (heap m1 value));
          m2 = set_entry m1 layout (unat position)
                 \<lparr>le_type = Some key, le_offset = - base - offset1\<rparr>
      in (m2, offset1))"

fun fill_hash_loop ::
  "addr \<Rightarrow> nat \<Rightarrow> 32 word \<Rightarrow> 32 word \<Rightarrow> mem \<Rightarrow> 32 word \<Rightarrow> pydict \<Rightarrow> (fault + (mem \<times> 32 word)) option" where
  "fill_hash_loop layout hash_size shift base m offset [] = Some (Inr (m, offset))"
| "fill_hash_loop layout hash_size shift base m offset ((key, value) # rest) =
     (if unat shift \<ge> 32 then Some (Inl ShiftRange)
      else if hash_size = 0 then Some (Inl DivisionByZero)
      else (case probe_entries (ly_entries (heap m layout)) hash_size
                   (word_of_nat (unat (drop_bit (unat shift) (ly_id (heap m value))) mod hash_size)) 1 of
              None \<Rightarrow> None
            | Some (Inl f) \<Rightarrow> Some (Inl f)
            | Some (Inr (position, cost)) \<Rightarrow>
                (case fill_hash_store layout base m offset key value position cost of
                   (m2, offset1) \<Rightarrow> fill_hash_loop layout hash_size shift base m2 offset1 rest)))"

definition layout_fill_hash :: "mem \<Rightarrow> addr \<Rightarrow> addr \<Rightarrow> pydict \<Rightarrow> (fault + mem) option" where
  "layout_fill_hash m layout type layouts =
     (case fill_hash_loop layout (Py_SIZE (heap m layout)) (ly_shift (heap m layout))
             (layout_base m type) m 0 layouts of
        None \<Rightarrow> None
      | Some (Inl f) \<Rightarrow> Some (Inl f)
      | Some (Inr (m', offset)) \<Rightarrow>
          Some (Inr (upd_layout m' layout (\<lambda>l. l\<lparr>ly_allocsize := sint offset\<rparr>))))"

definition layout_clear :: "mem \<Rightarrow> addr \<Rightarrow> mem" where
  "layout_clear m layout =
     upd_layout m layout (\<lambda>l. l\<lparr>ly_entries := map (\<lambda>e. e\<lparr>le_type := None\<rparr>) (ly_entries l)\<rparr>)"

subsection \<open>Construction\<close>

text \<open>
  Modelled from the spec: \<open>PyObject_NewVar\<close> is not among the sources of the layout
  module. The specification has the layout allocated with exactly \<open>table_size\<close>
  entries. \<open>PyObject_NewVar(PyLayout, &_PyLayout_Type, n)\<close> gives a new object with
  room for \<open>n\<close> entries at an address not in use, or \<open>NULL\<close>; nothing of the new
  object is initialised but its header.
\<close>

definition PyObject_NewVar :: "environ \<Rightarrow> mem \<Rightarrow> nat \<Rightarrow> (addr \<times> mem) option" where
  "PyObject_NewVar env m n =
     (if \<not> newvar_ok env then None
      else Some (brk m,
                 (upd_layout m (brk m) (\<lambda>l. l\<lparr>ly_entries := replicate n (fresh_entry env)\<rparr>))
                   \<lparr>brk := Suc (brk m)\<rparr>))"

text \<open>
  \<open>_PyLayout_Create\<close> from the comment \<open>Fill out fields\<close> to the end: \<open>result\<close>
  is the new layout, \<open>layouts\<close> the dictionary, \<open>order\<close> and \<open>new_id\<close> the locals
  \<open>order\<close> and \<open>id\<close>, \<open>sz\<close> the value of the parameter \<open>size\<close>.
\<close>

definition PyLayout_Create_fill ::
  "mem \<Rightarrow> addr \<Rightarrow> addr \<Rightarrow> pydict \<Rightarrow> int \<Rightarrow> 32 word \<Rightarrow> 32 word \<Rightarrow> (fault + (addr option \<times> mem)) option" where
  "PyLayout_Create_fill m result type layouts sz order new_id =
     (let m1 = upd_layout m result
                 (\<lambda>l. l\<lparr>ly_id := new_id, ly_order := order, ly_extensionsize := sz,
                        ly_allocsize := 0, ly_search := 1\<rparr>);
          m2 = layout_clear m1 result;
          layouts1 = (if sz > 0 then PyDict_SetItem layouts type result else layouts)
      in if ly_cast (heap m2 result) = CastOrdered
         then Some (Inr (Some result, layout_fill_ordered m2 result type layouts1))
         else (case layout_fill_hash m2 result type layouts1 of
                 None \<Rightarrow> None
               | Some (Inl f) \<Rightarrow> Some (Inl f)
               | Some (Inr m3) \<Rightarrow> Some (Inr (Some result, m3))))"

text \<open>
  \<open>_PyLayout_Create\<close>. The parameter \<open>size\<close> is a \<open>Py_ssize_t\<close>, a signed
  64-bit integer, and so is the sum in
  \<open>PyObject_Size(layouts) + size>0?1:0\<close>, which C reads as
  \<open>((PyObject_Size(layouts) + size) > 0) ? 1 : 0\<close>; the sum wraps around.
  The result is \<open>None\<close> when the call does not return, a fault, or the returned
  pointer (\<open>None\<close> for \<open>NULL\<close>) with the memory after the call. Neither
  \<open>layouts\<close> nor \<open>result\<close> is checked for \<open>NULL\<close> before use.
\<close>

definition order_sum :: "environ \<Rightarrow> pydict option \<Rightarrow> 64 word \<Rightarrow> int" where
  "order_sum env layouts sz = sint (word_of_int (PyObject_Size env layouts) + sz)"

definition PyLayout_Create ::
  "environ \<Rightarrow> mem \<Rightarrow> addr \<Rightarrow> addr list \<Rightarrow> 64 word \<Rightarrow> (fault + (addr option \<times> mem)) option" where
  "PyLayout_Create env m type bases sz =
     (let layouts = layout_collect env m bases;
          order = (if order_sum env layouts sz > 0 then 1 else 0 :: 32 word)
      in if order = 0 then Some (Inr (None, m))
         else (let entries = order; new_id = rand_value env
               in case layout_check_ordered m layouts of
                    Inl f \<Rightarrow> Some (Inl f)
                  | Inr is_ordered \<Rightarrow>
                      (case layouts of
                         None \<Rightarrow> Some (Inl NullPointer)
                       | Some d \<Rightarrow>
                          (if is_ordered
                           then (case PyObject_NewVar env m (unat entries) of
                                   None \<Rightarrow> Some (Inl NullPointer)
                                 | Some (result, m1) \<Rightarrow>
                                     PyLayout_Create_fill
                                       (upd_layout m1 result (\<lambda>l. l\<lparr>ly_cast := CastOrdered, ly_shift := 0\<rparr>))
                                       result type d (sint sz) order new_id)
                           else (case PyObject_NewVar env m (unat (entries * 2)) of
                                   None \<Rightarrow> Some (Inl NullPointer)
                                 | Some (result, m1) \<Rightarrow>
                                     (let m2 = upd_layout m1 result (\<lambda>l. l\<lparr>ly_cast := CastHash\<rparr>)
                                      in case layout_fast_hash m2 d (unat (entries * 2)) new_id of
                                           None \<Rightarrow> None
                                         | Some (Inl f) \<Rightarrow> Some (Inl f)
                                         | Some (Inr best) \<Rightarrow>
                                             PyLayout_Create_fill
                                               (upd_layout m2 result (\<lambda>l. l\<lparr>ly_shift := word_of_int best\<rparr>))
                                               result type d (sint sz) order new_id))))))"

text \<open>
  What the caller of \<open>_PyLayout_Create\<close> gets: no return, a fault, \<open>NULL\<close>, or
  a pointer to a layout object, shown here with the object it points to.
\<close>

definition returned_layout :: "(fault + (addr option \<times> mem)) option \<Rightarrow> (fault + PyLayout option) option" where
  "returned_layout r =
     (case r of
        None \<Rightarrow> None
      | Some (Inl f) \<Rightarrow> Some (Inl f)
      | Some (Inr (None, m)) \<Rightarrow> Some (Inr None)
      | Some (Inr (Some p, m)) \<Rightarrow> Some (Inr (Some (heap m p))))"

text \<open>The stores outside a table that the memory returned by a call holds.\<close>

definition stray_stores ::
  "(fault + (addr option \<times> mem)) option \<Rightarrow> (fault + (addr \<times> nat \<times> PyLayoutEntry) list) option" where
  "stray_stores r =
     (case r of
        None \<Rightarrow> None
      | Some (Inl f) \<Rightarrow> Some (Inl f)
      | Some (Inr (p, m)) \<Rightarrow> Some (Inr (stray m)))"

subsection \<open>The hash parameter search as the specification states it\<close>

text \<open>
  The specification has every candidate shift evaluated by placing the new id and
  then the id of every ancestor layout. This is \<open>fast_hash_for\<close> with the cursor
  at the first item of the dictionary in every round.
\<close>

function fast_hash_for_spec ::
  "mem \<Rightarrow> pydict \<Rightarrow> nat \<Rightarrow> 32 word \<Rightarrow> int \<Rightarrow> int \<Rightarrow> nat \<Rightarrow> (fault + int) option" where
  "fast_hash_for_spec m layouts hash_size new_id best best_cost shift =
     (if \<not> shift < 16 then Some (Inr best)
      else (case fast_hash_cost m layouts hash_size new_id 0 shift of
              None \<Rightarrow> None
            | Some (Inl f) \<Rightarrow> Some (Inl f)
            | Some (Inr cost) \<Rightarrow>
                if cost = int (length layouts) then Some (Inr (int shift))
                else if cost < best_cost
                then fast_hash_for_spec m layouts hash_size new_id (int shift) cost (Suc shift)
                else fast_hash_for_spec m layouts hash_size new_id best best_cost (Suc shift)))"
  by pat_completeness auto
termination
  by (relation "measure (\<lambda>(m, layouts, hash_size, new_id, best, best_cost, shift). 16 - shift)") auto

definition layout_fast_hash_spec :: "mem \<Rightarrow> pydict \<Rightarrow> nat \<Rightarrow> 32 word \<Rightarrow> (fault + int) option" where
  "layout_fast_hash_spec m layouts hash_size new_id =
     fast_hash_for_spec m layouts hash_size new_id 0 (int hash_size) 0"

subsection \<open>Predicates used in the proofs\<close>

text \<open>
  \<open>frame_outside p m m'\<close>: nothing but the layout object at \<open>p\<close> differs between
  \<open>m\<close> and \<open>m'\<close>. \<open>fixed_fields l l'\<close>: the fields of a layout that the fill
  functions do not write. \<open>only_table p m m'\<close>: both, and the allocator is untouched.
\<close>

definition frame_outside :: "addr \<Rightarrow> mem \<Rightarrow> mem \<Rightarrow> bool" where
  "frame_outside p m m' \<longleftrightarrow>
     tp_cache m' = tp_cache m \<and> tp_flags m' = tp_flags m \<and> ob_type m' = ob_type m
     \<and> (\<forall>q. q \<noteq> p \<longrightarrow> heap m' q = heap m q)"

definition fixed_fields :: "PyLayout \<Rightarrow> PyLayout \<Rightarrow> bool" where
  "fixed_fields l l' \<longleftrightarrow>
     ly_order l' = ly_order l \<and> ly_id l' = ly_id l \<and> ly_cast l' = ly_cast l
     \<and> ly_shift l' = ly_shift l \<and> ly_extensionsize l' = ly_extensionsize l
     \<and> length (ly_entries l') = length (ly_entries l)"

definition only_table :: "addr \<Rightarrow> mem \<Rightarrow> mem \<Rightarrow> bool" where
  "only_table p m m' \<longleftrightarrow>
     frame_outside p m m' \<and> brk m' = brk m \<and> (\<forall>q. fixed_fields (heap m q) (heap m' q))"


text \<open>
  \<open>hash_home m layout value\<close> is the home slot, in the table of \<open>layout\<close>, of the
  type whose layout is \<open>value\<close>: \<open>(ly_id >> ly_shift) % Py_SIZE(layout)\<close>.
  \<open>within_probe m layout key value\<close>: some slot at fewer than \<open>ly_search\<close> linear
  probe steps (with wraparound) from that home slot holds the type pointer \<open>key\<close>.
\<close>

definition hash_home :: "mem \<Rightarrow> addr \<Rightarrow> addr \<Rightarrow> nat" where
  "hash_home m layout value =
     unat (drop_bit (unat (ly_shift (heap m layout))) (ly_id (heap m value))) mod Py_SIZE (heap m layout)"

definition within_probe :: "mem \<Rightarrow> addr \<Rightarrow> addr \<Rightarrow> addr \<Rightarrow> bool" where
  "within_probe m layout key value \<longleftrightarrow>
     (\<exists>i < unat (ly_search (heap m layout)).
        le_type (ly_entries (heap m layout) !
                   ((hash_home m layout value + i) mod Py_SIZE (heap m layout))) = Some key)"

subsection \<open>Example memories\<close>

text \<open>
  Type \<open>A\<close> is the type object at address 10, with its layout at address 0: it asked
  for 8 bytes, and its fields are those \<open>_PyLayout_Create\<close> assigns (\<open>ly_order = 1\<close>).
  Type \<open>B\<close> is the type object at address 11 and has \<open>A\<close> as its only base.
\<close>

definition ex_blank :: PyLayout where
  "ex_blank = \<lparr>ly_entries = [], ly_allocsize = 0, ly_extensionsize = 0, ly_cast = CastOrdered,
               ly_id = 0, ly_order = 0, ly_shift = 0, ly_search = 0\<rparr>"

definition ex_env :: environ where
  "ex_env = \<lparr>rand_value = 6, dict_new_ok = True, newvar_ok = True,
             fresh_entry = \<lparr>le_type = Some 99, le_offset = 77\<rparr>, null_size = - 1\<rparr>"

definition ex_layout_A :: PyLayout where
  "ex_layout_A = \<lparr>ly_entries = [\<lparr>le_type = None, le_offset = 0\<rparr>], ly_allocsize = 8,
                  ly_extensionsize = 8, ly_cast = CastOrdered,
                  ly_id = 5, ly_order = 1, ly_shift = 0, ly_search = 1\<rparr>"

definition ex_mem_empty :: mem where
  "ex_mem_empty = \<lparr>tp_cache = (\<lambda>t. None), tp_flags = (\<lambda>t. {}), ob_type = (\<lambda>obj. 11),
                   heap = (\<lambda>p. ex_blank), brk = 0, stray = []\<rparr>"

text \<open>
  The layout object \<open>_PyLayout_Create\<close> returns for \<open>A\<close> (no bases, 8 bytes,
  \<open>rand()\<close> = 6) in \<open>ex_mem_empty\<close>: its one slot is cleared and never filled.
\<close>

definition ex_layout_root :: PyLayout where
  "ex_layout_root = \<lparr>ly_entries = [\<lparr>le_type = None, le_offset = 77\<rparr>], ly_allocsize = 8,
                     ly_extensionsize = 8, ly_cast = CastOrdered,
                     ly_id = 6, ly_order = 1, ly_shift = 0, ly_search = 1\<rparr>"

definition ex_mem_A :: mem where
  "ex_mem_A = \<lparr>tp_cache = (\<lambda>t. if t = 10 then Some 0 else None), tp_flags = (\<lambda>t. {}),
               ob_type = (\<lambda>obj. 11), heap = (\<lambda>p. if p = 0 then ex_layout_A else ex_blank), brk = 1, stray = []\<rparr>"

text \<open>
  The layout \<open>_PyLayout_Create\<close> builds for \<open>B\<close> (16 bytes, \<open>rand()\<close> = 6) in
  \<open>ex_mem_A\<close>, and the memory once it is stored in \<open>B\<close>'s \<open>tp_cache\<close>.
\<close>

definition ex_layout_B :: PyLayout where
  "ex_layout_B = \<lparr>ly_entries = [\<lparr>le_type = Some 11, le_offset = - 24\<rparr>,
                                 \<lparr>le_type = Some 10, le_offset = - 8\<rparr>],
                  ly_allocsize = 24, ly_extensionsize = 16, ly_cast = CastHash,
                  ly_id = 6, ly_order = 1, ly_shift = 0, ly_search = 1\<rparr>"

definition ex_mem_B :: mem where
  "ex_mem_B = \<lparr>tp_cache = (\<lambda>t. if t = 10 then Some 0 else if t = 11 then Some 1 else None),
               tp_flags = (\<lambda>t. {}), ob_type = (\<lambda>obj. 11),
               heap = (\<lambda>p. if p = 0 then ex_layout_A else if p = 1 then ex_layout_B else ex_blank),
               brk = 2, stray = []\<rparr>"

text \<open>
  \<open>ex_mem_A4\<close> is \<open>ex_mem_A\<close> with 4 as the id of the layout of \<open>A\<close>.
  In \<open>ex_mem_diamond\<close> the types \<open>B\<close> (address 11) and \<open>C\<close> (address 12) both
  have \<open>A\<close> as their only base; their layouts are the ones \<open>_PyLayout_Create\<close>
  builds for them (16 bytes each, \<open>rand()\<close> = 6 and 8). Type \<open>D\<close> (address 13) is
  to be defined with the bases \<open>B\<close> and \<open>C\<close>.
\<close>

definition ex_mem_A4 :: mem where
  "ex_mem_A4 = ex_mem_A\<lparr>heap := (heap ex_mem_A)(0 := ex_layout_A\<lparr>ly_id := 4\<rparr>)\<rparr>"

definition ex_layout_C :: PyLayout where
  "ex_layout_C = \<lparr>ly_entries = [\<lparr>le_type = Some 12, le_offset = - 24\<rparr>,
                                 \<lparr>le_type = Some 10, le_offset = - 8\<rparr>],
                  ly_allocsize = 24, ly_extensionsize = 16, ly_cast = CastHash,
                  ly_id = 8, ly_order = 1, ly_shift = 0, ly_search = 1\<rparr>"

definition ex_mem_diamond :: mem where
  "ex_mem_diamond =
     \<lparr>tp_cache = (\<lambda>t. if t = 10 then Some 0 else if t = 11 then Some 1
                        else if t = 12 then Some 2 else None),
      tp_flags = (\<lambda>t. {}), ob_type = (\<lambda>obj. 13),
      heap = (\<lambda>p. if p = 0 then ex_layout_A else if p = 1 then ex_layout_B
                    else if p = 2 then ex_layout_C else ex_blank),
      brk = 3, stray = []\<rparr>"

section \<open>Properties\<close>

subsection \<open>Auxiliary facts\<close>

lemmas layout_defs =
  PyLayout_Create_def layout_collect_def PyObject_Size_def layout_check_ordered_def
  PyObject_NewVar_def PyLayout_Create_fill_def Let_def upd_layout_def layout_clear_def
  PyDict_SetItem_def layout_fill_ordered_def layout_base_def PyType_HasFeature_def Py_SIZE_def
  Py_LAYOUT_def Py_TYPE_def layout_fast_hash_def fast_hash_cost_def dict_items_from_def
  dict_pos_after_def layout_fill_hash_def fill_hash_store_def set_entry_def sizeof_voidp_def
  store_entry_def order_sum_def
  PyObject_GetTypeData_def call_ly_cast_def layout_cast_ordered_def layout_cast_hash_def

lemmas ex_defs =
  ex_blank_def ex_env_def ex_layout_A_def ex_mem_A_def ex_layout_B_def ex_mem_B_def

lemma PyDict_Next_None:
  "PyDict_Next d pos = None \<Longrightarrow> dict_items_from d pos = [] \<and> dict_pos_after d pos = pos"
  by (simp add: PyDict_Next_def dict_items_from_def dict_pos_after_def split: if_splits)

lemma PyDict_Next_Some:
  "PyDict_Next d pos = Some (kv, pos') \<Longrightarrow>
     dict_items_from d pos = kv # dict_items_from d pos'
     \<and> dict_pos_after d pos = dict_pos_after d pos'"
  by (auto simp: PyDict_Next_def dict_items_from_def dict_pos_after_def Cons_nth_drop_Suc
      split: if_splits)

lemma unat_plus_one_cases: "unat ((x :: 32 word) + 1) = Suc (unat x) \<or> unat (x + 1) = 0"
  by (metis add.commute unatSuc unat_eq_zero plus_1_eq_Suc)

lemma unat_of_nat_mod_less: "0 < n \<Longrightarrow> unat (word_of_nat (k mod n) :: 32 word) < n"
proof -
  assume "0 < n"
  have "unat (word_of_nat (k mod n) :: 32 word) \<le> k mod n"
    by (simp add: unat_of_nat)
  also have "k mod n < n" using \<open>0 < n\<close> by simp
  finally show ?thesis .
qed

lemma cast_hash_loop_found:
  "cast_hash_loop entries obj T requested n = Inr (Some a) \<Longrightarrow>
     \<exists>slot < length entries. le_type (entries ! slot) = Some T
        \<and> a = int obj + sint (le_offset (entries ! slot))"
proof (induction n arbitrary: requested)
  case 0
  then show ?case by simp
next
  case (Suc n)
  show ?case
  proof (cases "unat requested \<ge> length entries")
    case True
    with Suc.prems show ?thesis by simp
  next
    case inb: False
    show ?thesis
    proof (cases "le_type (entries ! unat requested) = Some T")
      case True
      with inb Suc.prems show ?thesis
        by (intro exI [of _ "unat requested"]) simp
    next
      case False
      with inb Suc.prems have
        "cast_hash_loop entries obj T
           (if unat (requested + 1) = length entries then 0 else requested + 1) n = Inr (Some a)"
        by (simp add: Let_def)
      then show ?thesis by (rule Suc.IH)
    qed
  qed
qed

lemma cast_hash_loop_absent:
  "unat requested < length entries \<Longrightarrow> \<forall>e \<in> set entries. le_type e \<noteq> Some T \<Longrightarrow>
     cast_hash_loop entries obj T requested n = Inr None"
proof (induction n arbitrary: requested)
  case 0
  then show ?case by simp
next
  case (Suc n)
  let ?r = "if unat (requested + 1) = length entries then 0 else requested + 1"
  have "unat ?r < length entries"
    using Suc.prems(1) unat_plus_one_cases [of requested] by auto
  then have "cast_hash_loop entries obj T ?r n = Inr None"
    using Suc.prems(2) by (rule Suc.IH)
  moreover have "le_type (entries ! unat requested) \<noteq> Some T"
    using Suc.prems by simp
  ultimately show ?case using Suc.prems(1) by (simp add: Let_def)
qed

lemma upd_layout_sel [simp]:
  "heap (upd_layout m p f) = (heap m)(p := f (heap m p))"
  "tp_cache (upd_layout m p f) = tp_cache m"
  "tp_flags (upd_layout m p f) = tp_flags m"
  "ob_type (upd_layout m p f) = ob_type m"
  "brk (upd_layout m p f) = brk m"
  "stray (upd_layout m p f) = stray m"
  by (simp_all add: upd_layout_def)

lemma frame_outside_refl: "frame_outside p m m"
  by (simp add: frame_outside_def)

lemma frame_outside_trans:
  "frame_outside p m m1 \<Longrightarrow> frame_outside p m1 m2 \<Longrightarrow> frame_outside p m m2"
  by (simp add: frame_outside_def)

lemma frame_outside_upd: "frame_outside p m (upd_layout m p f)"
  by (simp add: frame_outside_def)

lemma frame_outside_set_entry: "frame_outside p m (set_entry m p i e)"
  by (simp add: set_entry_def frame_outside_upd)

lemma fixed_fields_refl: "fixed_fields l l"
  by (simp add: fixed_fields_def)

lemma fixed_fields_trans: "fixed_fields l l1 \<Longrightarrow> fixed_fields l1 l2 \<Longrightarrow> fixed_fields l l2"
  by (simp add: fixed_fields_def)

lemma fixed_fields_set_entry: "fixed_fields (heap m q) (heap (set_entry m p i e) q)"
  by (simp add: set_entry_def fixed_fields_def)

lemma fixed_fields_search:
  "fixed_fields (heap m q) (heap (upd_layout m p (\<lambda>l. l\<lparr>ly_search := c\<rparr>)) q)"
  by (simp add: fixed_fields_def)

lemma fixed_fields_allocsize:
  "fixed_fields (heap m q) (heap (upd_layout m p (\<lambda>l. l\<lparr>ly_allocsize := c\<rparr>)) q)"
  by (simp add: fixed_fields_def)

lemma brk_set_entry [simp]: "brk (set_entry m p i e) = brk m"
  by (simp add: set_entry_def)

lemma only_table_refl: "only_table p m m"
  by (simp add: only_table_def frame_outside_refl fixed_fields_refl)

lemma only_table_trans: "only_table p m m1 \<Longrightarrow> only_table p m1 m2 \<Longrightarrow> only_table p m m2"
  unfolding only_table_def
  by (metis frame_outside_trans fixed_fields_trans)

lemma only_table_set_entry: "only_table p m (set_entry m p i e)"
  by (simp add: only_table_def frame_outside_set_entry fixed_fields_set_entry)

lemma only_table_store_entry: "only_table p m (store_entry m p i e)"
  by (simp add: store_entry_def only_table_set_entry)
     (simp add: only_table_def frame_outside_def fixed_fields_def)

lemma only_table_search: "only_table p m (upd_layout m p (\<lambda>l. l\<lparr>ly_search := c\<rparr>))"
  by (simp add: only_table_def frame_outside_upd fixed_fields_def)

lemma only_table_allocsize: "only_table p m (upd_layout m p (\<lambda>l. l\<lparr>ly_allocsize := c\<rparr>))"
  by (simp add: only_table_def frame_outside_upd fixed_fields_def)

lemma fill_ordered_loop_frame:
  "fill_ordered_loop layout base m offset d = (m', offset') \<Longrightarrow> only_table layout m m'"
proof (induction d arbitrary: m offset)
  case Nil
  then show ?case by (simp add: only_table_refl)
next
  case (Cons kv d)
  obtain key v where kv: "kv = (key, v)" by (cases kv)
  let ?off = "offset + word_of_int (ly_extensionsize (heap m v))"
  let ?m1 = "store_entry m layout (unat (ly_order (heap m v)))
               \<lparr>le_type = Some key, le_offset = - base - ?off\<rparr>"
  from Cons.prems kv have "fill_ordered_loop layout base ?m1 ?off d = (m', offset')"
    by (simp add: Let_def)
  then have "only_table layout ?m1 m'"
    by (rule Cons.IH)
  with only_table_store_entry [of layout m] show ?case
    by (rule only_table_trans)
qed

lemma layout_fill_ordered_frame:
  "only_table layout m (layout_fill_ordered m layout type d)"
proof -
  obtain m' offset where
    f: "fill_ordered_loop layout (layout_base m type) m 0 d = (m', offset)"
    by (cases "fill_ordered_loop layout (layout_base m type) m 0 d")
  from fill_ordered_loop_frame [OF f] only_table_allocsize [of layout m']
  have "only_table layout m (upd_layout m' layout (\<lambda>l. l\<lparr>ly_allocsize := sint offset\<rparr>))"
    by (rule only_table_trans)
  with f show ?thesis by (simp add: layout_fill_ordered_def)
qed

lemma fill_hash_store_frame:
  "fill_hash_store layout base m offset key v position cost = (m2, offset1) \<Longrightarrow> only_table layout m m2"
  unfolding fill_hash_store_def Let_def
  by (auto intro: only_table_trans [OF only_table_search only_table_set_entry] only_table_set_entry)

lemma fill_hash_loop_frame:
  "fill_hash_loop layout hash_size shift base m offset d = Some (Inr (m', offset')) \<Longrightarrow>
     only_table layout m m'"
proof (induction d arbitrary: m offset)
  case Nil
  then show ?case by (simp add: only_table_refl)
next
  case (Cons kv d)
  obtain key v where kv: "kv = (key, v)" by (cases kv)
  from Cons.prems kv obtain position cost m2 offset1 where
    st: "fill_hash_store layout base m offset key v position cost = (m2, offset1)" and
    rec: "fill_hash_loop layout hash_size shift base m2 offset1 d = Some (Inr (m', offset'))"
    by (auto split: if_splits option.splits sum.splits prod.splits)
  from fill_hash_store_frame [OF st] Cons.IH [OF rec] show ?case
    by (rule only_table_trans)
qed

lemma layout_fill_hash_frame:
  "layout_fill_hash m layout type d = Some (Inr m') \<Longrightarrow> only_table layout m m'"
  unfolding layout_fill_hash_def
  by (auto split: option.splits sum.splits dest!: fill_hash_loop_frame
           intro: only_table_trans only_table_allocsize)

lemma only_table_clear: "only_table p m (layout_clear m p)"
  by (simp add: layout_clear_def only_table_def frame_outside_upd fixed_fields_def)

lemma PyLayout_Create_fill_frame:
  assumes "PyLayout_Create_fill m result type d sz order new_id = Some (Inr (r, m'))"
  shows "r = Some result \<and> frame_outside result m m' \<and> brk m' = brk m
         \<and> ly_order (heap m' result) = order \<and> ly_id (heap m' result) = new_id
         \<and> ly_extensionsize (heap m' result) = sz
         \<and> ly_cast (heap m' result) = ly_cast (heap m result)
         \<and> ly_shift (heap m' result) = ly_shift (heap m result)
         \<and> Py_SIZE (heap m' result) = Py_SIZE (heap m result)"
proof -
  let ?m1 = "upd_layout m result
                 (\<lambda>l. l\<lparr>ly_id := new_id, ly_order := order, ly_extensionsize := sz,
                        ly_allocsize := 0, ly_search := 1\<rparr>)"
  let ?m2 = "layout_clear ?m1 result"
  have f1: "frame_outside result m ?m1" by (rule frame_outside_upd)
  have c: "only_table result ?m1 ?m2" by (rule only_table_clear)
  from assms obtain d1 where
    "r = Some result \<and> (m' = layout_fill_ordered ?m2 result type d1
       \<or> layout_fill_hash ?m2 result type d1 = Some (Inr m'))"
    unfolding PyLayout_Create_fill_def Let_def
    by (auto split: if_splits sum.splits option.splits)
  then have r: "r = Some result" and "only_table result ?m2 m'"
    using layout_fill_ordered_frame [of result ?m2 type d1]
    by (auto dest: layout_fill_hash_frame)
  with c have o: "only_table result ?m1 m'" by (blast intro: only_table_trans)
  then have "frame_outside result m m'"
    using f1 by (auto simp: only_table_def intro: frame_outside_trans)
  moreover from o have "\<forall>q. fixed_fields (heap ?m1 q) (heap m' q)" and "brk m' = brk m"
    by (simp_all add: only_table_def)
  then have "fixed_fields (heap ?m1 result) (heap m' result)" and "brk m' = brk m"
    by blast+
  ultimately show ?thesis using r
    by (simp add: fixed_fields_def Py_SIZE_def)
qed


lemma PyLayout_Create_cases:
  assumes "PyLayout_Create env m type bases sz = Some (Inr (Some result, m'))"
  shows "result = brk m \<and> dict_new_ok env \<and> newvar_ok env
         \<and> 0 < order_sum env (Some (layout_collect_loop m [] bases)) sz
         \<and> (\<exists>m0. PyLayout_Create_fill m0 result type (layout_collect_loop m [] bases) (sint sz) 1
                      (rand_value env)
                    = Some (Inr (Some result, m'))
               \<and> frame_outside result m m0 \<and> brk m0 = Suc (brk m) \<and> stray m0 = stray m
               \<and> ((layout_check_ordered_loop m (length (layout_collect_loop m [] bases))
                      (replicate (length (layout_collect_loop m [] bases)) 0)
                      (layout_collect_loop m [] bases)
                    \<and> ly_cast (heap m0 result) = CastOrdered \<and> ly_shift (heap m0 result) = 0
                    \<and> Py_SIZE (heap m0 result) = 1)
                  \<or> (\<not> layout_check_ordered_loop m (length (layout_collect_loop m [] bases))
                      (replicate (length (layout_collect_loop m [] bases)) 0)
                      (layout_collect_loop m [] bases)
                    \<and> ly_cast (heap m0 result) = CastHash \<and> Py_SIZE (heap m0 result) = 2
                    \<and> (\<exists>best. ly_shift (heap m0 result) = word_of_int best))))"
proof -
  let ?d = "layout_collect_loop m [] bases"
  from assms have ok: "dict_new_ok env"
    by (auto simp: PyLayout_Create_def layout_collect_def layout_check_ordered_def PyObject_Size_def
        Let_def split: if_splits)
  then have lc: "layout_collect env m bases = Some ?d"
    by (simp add: layout_collect_def)
  from assms lc have pos: "0 < order_sum env (Some ?d) sz"
    by (auto simp: PyLayout_Create_def Let_def split: if_splits)
  from assms lc pos have nv: "newvar_ok env"
    by (auto simp: PyLayout_Create_def layout_check_ordered_def PyObject_NewVar_def
        Let_def split: if_splits)
  let ?ord = "layout_check_ordered_loop m (length ?d) (replicate (length ?d) 0) ?d"
  show ?thesis
  proof (cases ?ord)
    case True
    let ?m1 = "(upd_layout m (brk m) (\<lambda>l. l\<lparr>ly_entries := replicate 1 (fresh_entry env)\<rparr>))\<lparr>brk := Suc (brk m)\<rparr>"
    let ?m0 = "upd_layout ?m1 (brk m) (\<lambda>l. l\<lparr>ly_cast := CastOrdered, ly_shift := 0\<rparr>)"
    from assms lc pos nv True have
      f: "PyLayout_Create_fill ?m0 (brk m) type ?d (sint sz) 1 (rand_value env) = Some (Inr (Some result, m'))"
      by (simp add: PyLayout_Create_def layout_check_ordered_def PyObject_NewVar_def
          Let_def)
    from PyLayout_Create_fill_frame [OF f] have r: "result = brk m" by simp
    have "frame_outside result m ?m0" "brk ?m0 = Suc (brk m)" "stray ?m0 = stray m"
      "ly_cast (heap ?m0 result) = CastOrdered" "ly_shift (heap ?m0 result) = 0"
      "Py_SIZE (heap ?m0 result) = 1"
      using r by (simp_all add: frame_outside_def Py_SIZE_def upd_layout_def)
    with f r ok nv pos True show ?thesis by blast
  next
    case False
    let ?m1 = "(upd_layout m (brk m) (\<lambda>l. l\<lparr>ly_entries := replicate 2 (fresh_entry env)\<rparr>))\<lparr>brk := Suc (brk m)\<rparr>"
    let ?m2 = "upd_layout ?m1 (brk m) (\<lambda>l. l\<lparr>ly_cast := CastHash\<rparr>)"
    from assms lc pos nv False obtain best where
      f: "PyLayout_Create_fill (upd_layout ?m2 (brk m) (\<lambda>l. l\<lparr>ly_shift := word_of_int best\<rparr>))
            (brk m) type ?d (sint sz) 1 (rand_value env) = Some (Inr (Some result, m'))"
      by (auto simp: PyLayout_Create_def layout_check_ordered_def PyObject_NewVar_def
          Let_def split: option.splits sum.splits)
    let ?m0 = "upd_layout ?m2 (brk m) (\<lambda>l. l\<lparr>ly_shift := word_of_int best\<rparr>)"
    from PyLayout_Create_fill_frame [OF f] have r: "result = brk m" by simp
    have "frame_outside result m ?m0" "brk ?m0 = Suc (brk m)" "stray ?m0 = stray m"
      "ly_cast (heap ?m0 result) = CastHash" "ly_shift (heap ?m0 result) = word_of_int best"
      "Py_SIZE (heap ?m0 result) = 2"
      using r by (simp_all add: frame_outside_def Py_SIZE_def upd_layout_def)
    with f r ok nv pos False show ?thesis by blast
  qed
qed


lemma unat_next_position:
  assumes "unat (position :: 32 word) < hs" and "hs < 2 ^ 32"
  shows "unat (if unat (position + 1) = hs then 0 else position + 1) = (unat position + 1) mod hs"
proof -
  from assms have "unat position + 1 < 2 ^ 32" by simp
  then have u: "unat (position + 1) = unat position + 1"
    by (simp add: unat_word_ariths)
  show ?thesis
  proof (cases "unat position + 1 = hs")
    case True
    with u show ?thesis by simp
  next
    case False
    with assms have "unat position + 1 < hs" by simp
    with u False show ?thesis by simp
  qed
qed

lemma probe_entries_steps:
  assumes "probe_entries entries hs position cost = Some y"
  shows "hs = length entries \<longrightarrow> unat position < hs \<longrightarrow> hs < 2 ^ 32 \<longrightarrow>
     (\<forall>position' cost'. y = Inr (position', cost') \<longrightarrow>
        (\<exists>d. unat position' = (unat position + d) mod hs \<and> cost' = cost + of_nat d
            \<and> unat position' < hs \<and> le_type (entries ! unat position') = None
            \<and> (\<forall>j<d. le_type (entries ! ((unat position + j) mod hs)) \<noteq> None)))"
proof (rule probe_entries.raw_induct [where P = "\<lambda>entries hs position cost y.
     hs = length entries \<longrightarrow> unat position < hs \<longrightarrow> hs < 2 ^ 32 \<longrightarrow>
     (\<forall>position' cost'. y = Inr (position', cost') \<longrightarrow>
        (\<exists>d. unat position' = (unat position + d) mod hs \<and> cost' = cost + of_nat d
            \<and> unat position' < hs \<and> le_type (entries ! unat position') = None
            \<and> (\<forall>j<d. le_type (entries ! ((unat position + j) mod hs)) \<noteq> None)))", OF _ assms])
  fix probe :: "PyLayoutEntry list \<Rightarrow> nat \<Rightarrow> 32 word \<Rightarrow> 32 word \<Rightarrow> (fault + 32 word \<times> 32 word) option"
    and entries hs position cost y
  assume IH: "\<And>entries hs position cost y. probe entries hs position cost = Some y \<Longrightarrow>
     hs = length entries \<longrightarrow> unat position < hs \<longrightarrow> hs < 2 ^ 32 \<longrightarrow>
     (\<forall>position' cost'. y = Inr (position', cost') \<longrightarrow>
        (\<exists>d. unat position' = (unat position + d) mod hs \<and> cost' = cost + of_nat d
            \<and> unat position' < hs \<and> le_type (entries ! unat position') = None
            \<and> (\<forall>j<d. le_type (entries ! ((unat position + j) mod hs)) \<noteq> None)))"
   and step: "(if length entries \<le> unat position then Some (Inl OutOfBounds)
      else if le_type (entries ! unat position) \<noteq> None
           then probe entries hs
                 (if unat (position + 1) = hs then 0
                  else position + 1)
                 (cost + 1)
           else Some (Inr (position, cost))) =
     Some y"
  show "hs = length entries \<longrightarrow> unat position < hs \<longrightarrow> hs < 2 ^ 32 \<longrightarrow>
     (\<forall>position' cost'. y = Inr (position', cost') \<longrightarrow>
        (\<exists>d. unat position' = (unat position + d) mod hs \<and> cost' = cost + of_nat d
            \<and> unat position' < hs \<and> le_type (entries ! unat position') = None
            \<and> (\<forall>j<d. le_type (entries ! ((unat position + j) mod hs)) \<noteq> None)))"
  proof (intro impI allI)
    fix position' cost'
    assume hs: "hs = length entries" and inb: "unat position < hs" and small: "hs < 2 ^ 32"
      and y: "y = Inr (position', cost')"
    show "\<exists>d. unat position' = (unat position + d) mod hs \<and> cost' = cost + of_nat d
            \<and> unat position' < hs \<and> le_type (entries ! unat position') = None
            \<and> (\<forall>j<d. le_type (entries ! ((unat position + j) mod hs)) \<noteq> None)"
    proof (cases "le_type (entries ! unat position) \<noteq> None")
      case False
      with step hs inb y have "position' = position" "cost' = cost" by auto
      with False inb show ?thesis by (intro exI [of _ 0]) simp
    next
      case occ: True
      let ?next = "if unat (position + 1) = hs then 0 else position + 1"
      have un: "unat ?next = (unat position + 1) mod hs"
        using inb small by (rule unat_next_position)
      from inb have "0 < hs" by simp
      then have "(unat position + 1) mod hs < hs" by (rule mod_less_divisor)
      with un have nb: "unat ?next < hs" by simp
      from step hs inb occ have "probe entries hs ?next (cost + 1) = Some y" by simp
      from IH [OF this] hs nb small y obtain d where
        d: "unat position' = (unat ?next + d) mod hs" "cost' = cost + 1 + of_nat d"
           "unat position' < hs" "le_type (entries ! unat position') = None"
           "\<forall>j<d. le_type (entries ! ((unat ?next + j) mod hs)) \<noteq> None"
        by blast
      have shift: "\<And>j. (unat ?next + j) mod hs = (unat position + Suc j) mod hs"
        by (simp add: un mod_add_left_eq)
      have "\<forall>j<Suc d. le_type (entries ! ((unat position + j) mod hs)) \<noteq> None"
      proof (intro allI impI)
        fix j assume "j < Suc d"
        show "le_type (entries ! ((unat position + j) mod hs)) \<noteq> None"
        proof (cases j)
          case 0
          with occ inb show ?thesis by simp
        next
          case (Suc j')
          with \<open>j < Suc d\<close> d(5) have "le_type (entries ! ((unat ?next + j') mod hs)) \<noteq> None" by simp
          with Suc shift show ?thesis by simp
        qed
      qed
      with d shift show ?thesis
        by (intro exI [of _ "Suc d"]) simp
    qed
  qed
qed

lemma probe_entries_result:
  assumes "probe_entries entries hs position cost = Some (Inr (position', cost'))"
    and "hs = length entries" and "unat position < hs" and "hs < 2 ^ 32"
  shows "\<exists>d<hs. unat position' = (unat position + d) mod hs \<and> cost' = cost + of_nat d
            \<and> unat position' < hs \<and> le_type (entries ! unat position') = None"
proof -
  from probe_entries_steps [OF assms(1)] assms(2-4) obtain d where
    d: "unat position' = (unat position + d) mod hs" "cost' = cost + of_nat d"
       "unat position' < hs" "le_type (entries ! unat position') = None"
       "\<forall>j<d. le_type (entries ! ((unat position + j) mod hs)) \<noteq> None"
    by blast
  have "d < hs"
  proof (rule ccontr)
    assume "\<not> d < hs"
    then have "d mod hs < d" using assms(3)
      by (metis leI le_less_trans less_nat_zero_code mod_less_divisor neq0_conv order.strict_trans2)
    with d(5) have "le_type (entries ! ((unat position + d mod hs) mod hs)) \<noteq> None" by blast
    then have "le_type (entries ! ((unat position + d) mod hs)) \<noteq> None"
      by (simp add: mod_add_right_eq)
    with d(1,4) show False by simp
  qed
  with d show ?thesis by blast
qed

lemma unat_home:
  "0 < hs \<Longrightarrow> hs < 2 ^ 32 \<Longrightarrow> unat (word_of_nat (x mod hs) :: 32 word) = x mod hs"
proof -
  assume "0 < hs" "hs < 2 ^ 32"
  then have "x mod hs < 2 ^ 32"
    by (meson mod_less_divisor order.strict_trans)
  then show ?thesis by (simp add: unat_of_nat)
qed

lemma fill_hash_store_heap:
  assumes "fill_hash_store layout base m offset key value position cost = (m2, offset1)"
  shows "ly_entries (heap m2 layout) =
           (ly_entries (heap m layout))[unat position :=
              \<lparr>le_type = Some key, le_offset = - base - offset1\<rparr>]"
    and "ly_search (heap m2 layout) =
           (if ly_search (heap m layout) < cost then cost else ly_search (heap m layout))"
    and "ly_shift (heap m2 layout) = ly_shift (heap m layout)"
    and "ly_id (heap m2 q) = ly_id (heap m q)"
    and "offset1 = offset + word_of_int (ly_extensionsize (heap m value))"
  using assms by (auto simp: fill_hash_store_def Let_def set_entry_def)

lemma fill_hash_store_home:
  assumes "fill_hash_store layout base m offset key value position cost = (m2, offset1)"
  shows "hash_home m2 layout v = hash_home m layout v"
    and "Py_SIZE (heap m2 layout) = Py_SIZE (heap m layout)"
  using fill_hash_store_heap [OF assms] by (simp_all add: hash_home_def Py_SIZE_def)

lemma fill_hash_store_keeps:
  assumes st: "fill_hash_store layout base m offset key value position cost = (m2, offset1)"
    and free: "le_type (ly_entries (heap m layout) ! unat position) = None"
    and old: "within_probe m layout k v"
  shows "within_probe m2 layout k v"
proof -
  from old obtain i where
    i: "i < unat (ly_search (heap m layout))"
       "le_type (ly_entries (heap m layout) !
                   ((hash_home m layout v + i) mod Py_SIZE (heap m layout))) = Some k"
    by (auto simp: within_probe_def)
  let ?s = "(hash_home m layout v + i) mod Py_SIZE (heap m layout)"
  from i(2) free have ne: "?s \<noteq> unat position" by auto
  have "unat (ly_search (heap m layout)) \<le> unat (ly_search (heap m2 layout))"
    by (simp add: fill_hash_store_heap(2) [OF st] word_less_nat_alt)
  with i(1) have "i < unat (ly_search (heap m2 layout))" by simp
  moreover have "le_type (ly_entries (heap m2 layout) ! ?s) = Some k"
    using ne i(2) by (simp add: fill_hash_store_heap(1) [OF st])
  ultimately show ?thesis
    unfolding within_probe_def fill_hash_store_home [OF st] by blast
qed

lemma fill_hash_store_places:
  assumes st: "fill_hash_store layout base m offset key value position cost = (m2, offset1)"
    and d: "d < Py_SIZE (heap m layout)" "Py_SIZE (heap m layout) < 2 ^ 32"
      "unat position = (hash_home m layout value + d) mod Py_SIZE (heap m layout)"
      "cost = 1 + of_nat d"
  shows "within_probe m2 layout key value"
proof -
  let ?hs = "Py_SIZE (heap m layout)"
  from d(1,2) have "Suc d < 2 ^ 32" by simp
  then have uc: "unat cost = Suc d"
    by (simp add: d(4) unat_word_ariths unat_of_nat)
  have "unat cost \<le> unat (ly_search (heap m2 layout))"
    by (simp add: fill_hash_store_heap(2) [OF st] word_less_nat_alt)
  with uc have i: "d < unat (ly_search (heap m2 layout))" by simp
  from d(1) have "0 < ?hs" by simp
  then have "unat position < ?hs"
    unfolding d(3) by (rule mod_less_divisor)
  then have "unat position < length (ly_entries (heap m layout))"
    by (simp add: Py_SIZE_def)
  then have "le_type (ly_entries (heap m2 layout) ! unat position) = Some key"
    by (simp add: fill_hash_store_heap(1) [OF st])
  with i show ?thesis
    unfolding within_probe_def fill_hash_store_home [OF st] d(3) by blast
qed

lemma fill_hash_loop_within:
  assumes "fill_hash_loop layout hs shift base m offset d = Some (Inr (m', offset'))"
    and "hs = Py_SIZE (heap m layout)" and "hs < 2 ^ 32" and "shift = ly_shift (heap m layout)"
  shows "(\<forall>(k, v) \<in> set d. within_probe m' layout k v)
         \<and> (\<forall>k v. within_probe m layout k v \<longrightarrow> within_probe m' layout k v)"
  using assms
proof (induction d arbitrary: m offset)
  case Nil
  then show ?case by simp
next
  case (Cons kv d)
  obtain key v where kv: "kv = (key, v)" by (cases kv)
  from Cons.prems(1) kv have pos: "0 < hs" and sh: "unat shift < 32"
    by (auto split: if_splits)
  from Cons.prems(1) kv pos sh obtain position cost m2 offset1 where
    pr: "probe_entries (ly_entries (heap m layout)) hs
           (word_of_nat (unat (drop_bit (unat shift) (ly_id (heap m v))) mod hs)) 1
         = Some (Inr (position, cost))" and
    st: "fill_hash_store layout base m offset key v position cost = (m2, offset1)" and
    rec: "fill_hash_loop layout hs shift base m2 offset1 d = Some (Inr (m', offset'))"
    by (auto split: if_splits option.splits sum.splits prod.splits)
  have home: "unat (word_of_nat (unat (drop_bit (unat shift) (ly_id (heap m v))) mod hs) :: 32 word)
                = hash_home m layout v"
    using pos Cons.prems(2,3,4) by (simp add: unat_home hash_home_def)
  have len: "hs = length (ly_entries (heap m layout))"
    using Cons.prems(2) by (simp add: Py_SIZE_def)
  have hb: "hash_home m layout v < hs"
    using pos Cons.prems(2) by (simp add: hash_home_def)
  from probe_entries_result [OF pr len] home hb Cons.prems(3) obtain dd where
    dd: "dd < hs" "unat position = (hash_home m layout v + dd) mod hs" "cost = 1 + of_nat dd"
        "le_type (ly_entries (heap m layout) ! unat position) = None"
    by auto
  have new: "within_probe m2 layout key v"
    using st dd(1) Cons.prems(3) dd(2,3) unfolding Cons.prems(2)
    by (rule fill_hash_store_places)
  have keep: "\<And>k v'. within_probe m layout k v' \<Longrightarrow> within_probe m2 layout k v'"
    using st dd(4) by (rule fill_hash_store_keeps)
  have "hs = Py_SIZE (heap m2 layout)" "shift = ly_shift (heap m2 layout)"
    using Cons.prems(2,4) fill_hash_store_home(2) [OF st] fill_hash_store_heap(3) [OF st] by simp_all
  from Cons.IH [OF rec this(1) Cons.prems(3) this(2)] have
    ih: "(\<forall>(k, v) \<in> set d. within_probe m' layout k v)"
        "\<And>k v. within_probe m2 layout k v \<Longrightarrow> within_probe m' layout k v"
    by blast+
  from ih new keep kv show ?case by auto
qed

lemma cast_hash_loop_reach:
  assumes "unat start < length entries" and "length entries < 2 ^ 32"
    and "\<exists>i<n. le_type (entries ! ((unat start + i) mod length entries)) = Some T"
  shows "\<exists>i<n. le_type (entries ! ((unat start + i) mod length entries)) = Some T
           \<and> cast_hash_loop entries obj T start n
               = Inr (Some (int obj + sint (le_offset (entries ! ((unat start + i) mod length entries)))))"
  using assms
proof (induction n arbitrary: start)
  case 0
  then show ?case by simp
next
  case (Suc n)
  show ?case
  proof (cases "le_type (entries ! unat start) = Some T")
    case True
    with Suc.prems(1) show ?thesis
      by (intro exI [of _ 0]) simp
  next
    case False
    let ?next = "if unat (start + 1) = length entries then 0 else start + 1"
    have un: "unat ?next = (unat start + 1) mod length entries"
      using Suc.prems(1,2) by (rule unat_next_position)
    from Suc.prems(1) have "0 < length entries" by (cases entries) simp_all
    then have "(unat start + 1) mod length entries < length entries"
      by (rule mod_less_divisor)
    with un have nb: "unat ?next < length entries" by simp
    have shift: "\<And>j. (unat ?next + j) mod length entries = (unat start + Suc j) mod length entries"
      by (simp add: un mod_add_left_eq)
    from Suc.prems(3) obtain i where
      i: "i < Suc n" "le_type (entries ! ((unat start + i) mod length entries)) = Some T"
      by blast
    with False Suc.prems(1) obtain i' where i': "i = Suc i'"
      by (cases i) auto
    with i shift have "\<exists>j<n. le_type (entries ! ((unat ?next + j) mod length entries)) = Some T"
      by (intro exI [of _ i']) simp
    from Suc.IH [OF nb Suc.prems(2) this] obtain j where
      j: "j < n" "le_type (entries ! ((unat ?next + j) mod length entries)) = Some T"
         "cast_hash_loop entries obj T ?next n
            = Inr (Some (int obj + sint (le_offset (entries ! ((unat ?next + j) mod length entries)))))"
      by blast
    have "cast_hash_loop entries obj T start (Suc n) = cast_hash_loop entries obj T ?next n"
      using False Suc.prems(1) by (simp add: Let_def)
    with j shift show ?thesis
      by (intro exI [of _ "Suc j"]) simp
  qed
qed

lemma within_probe_lookup:
  assumes w: "within_probe m layout key value"
    and tl: "Py_LAYOUT m key = Some value"
    and sh: "unat (ly_shift (heap m layout)) < 32"
    and sz: "0 < Py_SIZE (heap m layout)" "Py_SIZE (heap m layout) < 2 ^ 32"
  shows "\<exists>slot < Py_SIZE (heap m layout).
           le_type (ly_entries (heap m layout) ! slot) = Some key
           \<and> layout_cast_hash m layout obj key
               = Inr (Some (int obj + sint (le_offset (ly_entries (heap m layout) ! slot))))"
proof -
  let ?entries = "ly_entries (heap m layout)"
  let ?start = "word_of_nat (hash_home m layout value) :: 32 word"
  have len: "Py_SIZE (heap m layout) = length ?entries" by (simp add: Py_SIZE_def)
  have us: "unat ?start = hash_home m layout value"
    unfolding hash_home_def using sz by (rule unat_home)
  have hb: "hash_home m layout value < length ?entries"
    using sz(1) by (simp add: hash_home_def Py_SIZE_def)
  from w have "\<exists>i<unat (ly_search (heap m layout)).
       le_type (?entries ! ((unat ?start + i) mod length ?entries)) = Some key"
    by (simp add: within_probe_def us len)
  from cast_hash_loop_reach [OF _ _ this, of obj] us hb sz(2) len obtain i where
    i: "le_type (?entries ! ((unat ?start + i) mod length ?entries)) = Some key"
       "cast_hash_loop ?entries obj key ?start (unat (ly_search (heap m layout)))
          = Inr (Some (int obj + sint (le_offset (?entries ! ((unat ?start + i) mod length ?entries)))))"
    by auto
  have "layout_cast_hash m layout obj key
          = cast_hash_loop ?entries obj key ?start (unat (ly_search (heap m layout)))"
    using tl sh sz(1) by (simp add: layout_cast_hash_def Let_def hash_home_def)
  moreover have "(unat ?start + i) mod length ?entries < Py_SIZE (heap m layout)"
    using sz(1) by (simp add: len)
  ultimately show ?thesis using i by metis
qed

lemma PyDict_SetItem_set:
  "(k, v) \<in> set (PyDict_SetItem d key value) \<Longrightarrow> (k, v) \<in> set d \<or> (k, v) = (key, value)"
  by (auto simp: PyDict_SetItem_def split: if_splits)

lemma layout_collect_loop_set:
  "(k, v) \<in> set (layout_collect_loop m d bases) \<Longrightarrow>
     (k, v) \<in> set d \<or> (k \<in> set bases \<and> Py_LAYOUT m k = Some v)"
proof (induction bases arbitrary: d)
  case Nil
  then show ?case by simp
next
  case (Cons t bases)
  show ?case
  proof (cases "Py_LAYOUT m t")
    case None
    with Cons show ?thesis by auto
  next
    case (Some l)
    with Cons.prems have "(k, v) \<in> set (layout_collect_loop m (PyDict_SetItem d t l) bases)" by simp
    from Cons.IH [OF this] Some show ?thesis
      by (auto dest: PyDict_SetItem_set)
  qed
qed

lemma fill_hash_loop_nonempty:
  "fill_hash_loop layout hs shift base m offset d = Some (Inr r) \<Longrightarrow> d \<noteq> [] \<Longrightarrow>
     unat shift < 32 \<and> 0 < hs"
  by (cases d) (auto split: if_splits)

lemma within_probe_cong:
  assumes "ly_entries (heap m' layout) = ly_entries (heap m layout)"
    and "ly_search (heap m' layout) = ly_search (heap m layout)"
    and "ly_shift (heap m' layout) = ly_shift (heap m layout)"
    and "ly_id (heap m' value) = ly_id (heap m value)"
  shows "within_probe m' layout key value = within_probe m layout key value"
  using assms by (simp add: within_probe_def hash_home_def Py_SIZE_def)

lemma PyLayout_Create_fill_hash_within:
  assumes f: "PyLayout_Create_fill m0 result type d sz order new_id = Some (Inr (r, m'))"
    and h: "ly_cast (heap m0 result) = CastHash"
    and small: "Py_SIZE (heap m0 result) < 2 ^ 32"
    and kv: "(k, v) \<in> set (if sz > 0 then PyDict_SetItem d type result else d)"
  shows "within_probe m' result k v \<and> unat (ly_shift (heap m' result)) < 32
         \<and> 0 < Py_SIZE (heap m' result)"
proof -
  let ?m1 = "upd_layout m0 result
                 (\<lambda>l. l\<lparr>ly_id := new_id, ly_order := order, ly_extensionsize := sz,
                        ly_allocsize := 0, ly_search := 1\<rparr>)"
  let ?m2 = "layout_clear ?m1 result"
  let ?d1 = "if sz > 0 then PyDict_SetItem d type result else d"
  have c2: "ly_cast (heap ?m2 result) = CastHash" using h by (simp add: layout_clear_def)
  have s2: "Py_SIZE (heap ?m2 result) = Py_SIZE (heap m0 result)"
    by (simp add: layout_clear_def Py_SIZE_def)
  from f c2 have "layout_fill_hash ?m2 result type ?d1 = Some (Inr m')"
    unfolding PyLayout_Create_fill_def Let_def
    by (auto split: if_splits option.splits sum.splits)
  then obtain m3 offset where
    l: "fill_hash_loop result (Py_SIZE (heap ?m2 result)) (ly_shift (heap ?m2 result))
          (layout_base ?m2 type) ?m2 0 ?d1 = Some (Inr (m3, offset))" and
    m': "m' = upd_layout m3 result (\<lambda>l. l\<lparr>ly_allocsize := sint offset\<rparr>)"
    unfolding layout_fill_hash_def by (auto split: option.splits sum.splits)
  from fill_hash_loop_within [OF l refl _ refl] small s2 kv
  have w3: "within_probe m3 result k v" by auto
  have "within_probe m' result k v = within_probe m3 result k v"
    by (rule within_probe_cong) (simp_all add: m')
  with w3 have w: "within_probe m' result k v" by simp
  from kv have "?d1 \<noteq> []" by auto
  from fill_hash_loop_nonempty [OF l this]
  have b: "unat (ly_shift (heap ?m2 result)) < 32" "0 < Py_SIZE (heap ?m2 result)" by simp_all
  from fill_hash_loop_frame [OF l] have "fixed_fields (heap ?m2 result) (heap m3 result)"
    by (simp add: only_table_def)
  then have "ly_shift (heap m' result) = ly_shift (heap ?m2 result)"
    "Py_SIZE (heap m' result) = Py_SIZE (heap ?m2 result)"
    by (simp_all add: fixed_fields_def m' Py_SIZE_def)
  with w b show ?thesis by simp
qed


lemma probe_buf_full:
  assumes "probe_buf buf hs position cost0 = Some y"
  shows "hs = length buf \<longrightarrow> unat position < hs \<longrightarrow> hs < 2 ^ 32
           \<longrightarrow> (\<exists>i<length buf. \<not> 0 < sint (buf ! i))"
proof (rule probe_buf.raw_induct [where P = "\<lambda>buf hs position cost0 y.
     hs = length buf \<longrightarrow> unat position < hs \<longrightarrow> hs < 2 ^ 32
       \<longrightarrow> (\<exists>i<length buf. \<not> 0 < sint (buf ! i))", OF _ assms])
  fix probe :: "8 word list \<Rightarrow> nat \<Rightarrow> 32 word \<Rightarrow> int \<Rightarrow> (fault + 32 word \<times> int) option"
    and buf hs position cost0 y
  assume IH: "\<And>buf hs position cost0 y. probe buf hs position cost0 = Some y \<Longrightarrow>
     hs = length buf \<longrightarrow> unat position < hs \<longrightarrow> hs < 2 ^ 32
       \<longrightarrow> (\<exists>i<length buf. \<not> 0 < sint (buf ! i))"
    and step: "(if length buf \<le> unat position then Some (Inl OutOfBounds)
      else if 0 < sint (buf ! unat position)
           then probe buf hs (if unat (position + 1) = hs then 0 else position + 1) (cost0 + 1)
           else Some (Inr (position, cost0))) = Some y"
  show "hs = length buf \<longrightarrow> unat position < hs \<longrightarrow> hs < 2 ^ 32
       \<longrightarrow> (\<exists>i<length buf. \<not> 0 < sint (buf ! i))"
  proof (intro impI)
    assume hs: "hs = length buf" and inb: "unat position < hs" and small: "hs < 2 ^ 32"
    show "\<exists>i<length buf. \<not> 0 < sint (buf ! i)"
    proof (cases "0 < sint (buf ! unat position)")
      case False
      with inb hs show ?thesis by blast
    next
      case True
      let ?next = "if unat (position + 1) = hs then 0 else position + 1"
      have un: "unat ?next = (unat position + 1) mod hs"
        using inb small by (rule unat_next_position)
      from inb have "0 < hs" by simp
      then have "(unat position + 1) mod hs < hs" by (rule mod_less_divisor)
      with un have nb: "unat ?next < hs" by simp
      from step hs inb True have "probe buf hs ?next (cost0 + 1) = Some y" by simp
      from IH [OF this] hs nb small show ?thesis by blast
    qed
  qed
qed

lemma probe_buf_diverges:
  assumes "\<forall>i<length buf. 0 < sint (buf ! i)" and "unat position < length buf"
    and "length buf < 2 ^ 32"
  shows "probe_buf buf (length buf) position cost0 = None"
proof (cases "probe_buf buf (length buf) position cost0")
  case None
  then show ?thesis .
next
  case (Some y)
  from probe_buf_full [OF Some] assms show ?thesis by blast
qed


lemma ex_probe_free: "probe_buf [0, 1] 2 0 1 = Some (Inr (0, 1))"
  by (simp add: probe_buf.simps)

lemma ex_probe_full: "probe_buf [1, 1] 2 0 1 = None"
proof -
  have a: "\<forall>i<length [1, 1 :: 8 word]. 0 < sint ([1, 1 :: 8 word] ! i)"
    by (simp add: less_Suc_eq)
  have b: "unat (0 :: 32 word) < length [1, 1 :: 8 word]" by simp
  have c: "length [1, 1 :: 8 word] < 2 ^ 32" by simp
  have d: "length [1, 1 :: 8 word] = 2" by simp
  from probe_buf_diverges [OF a b c, of 1] show ?thesis by (simp only: d)
qed

lemma ex_buf: "(replicate 2 (0 :: 8 word))[Suc 0 := 1] = [0, 1]"
  by (simp add: numeral_2_eq_2)

lemma PyLayout_Create_table_size:
  assumes "PyLayout_Create env m type bases sz = Some (Inr (Some result, m'))"
  shows "Py_SIZE (heap m' result) = (if ly_cast (heap m' result) = CastOrdered then 1 else 2)"
proof -
  from PyLayout_Create_cases [OF assms] obtain m0 where
    f: "PyLayout_Create_fill m0 result type (layout_collect_loop m [] bases) (sint sz) 1 (rand_value env)
          = Some (Inr (Some result, m'))" and
    c: "(ly_cast (heap m0 result) = CastOrdered \<and> Py_SIZE (heap m0 result) = 1)
        \<or> (ly_cast (heap m0 result) = CastHash \<and> Py_SIZE (heap m0 result) = 2)"
    by blast
  from PyLayout_Create_fill_frame [OF f] c show ?thesis by auto
qed

lemma layout_collect_loop_none:
  "\<forall>t \<in> set bases. Py_LAYOUT m t = None \<Longrightarrow> layout_collect_loop m d bases = d"
  by (induction bases) simp_all

lemma PyLayout_Create_root:
  assumes "dict_new_ok env" and "newvar_ok env" and "0 < sint sz"
    and "\<forall>t \<in> set bases. Py_LAYOUT m t = None"
  shows "\<exists>m'. PyLayout_Create env m type bases sz = Some (Inr (Some (brk m), m'))
           \<and> stray m' = stray m @ [(brk m, 1, \<lparr>le_type = Some type,
                  le_offset = - layout_base m type - word_of_int (sint sz)\<rparr>)]
           \<and> ly_cast (heap m' (brk m)) = CastOrdered \<and> ly_order (heap m' (brk m)) = 1
           \<and> ly_entries (heap m' (brk m)) = [(fresh_entry env)\<lparr>le_type := None\<rparr>]"
proof -
  have "layout_collect env m bases = Some []"
    using assms(1,4) by (simp add: layout_collect_def layout_collect_loop_none)
  moreover have "layout_base (m0\<lparr>heap := h\<rparr>) type = layout_base m0 type"
    "layout_base (m0\<lparr>brk := b\<rparr>) type = layout_base m0 type" for m0 h b
    by (simp_all add: layout_base_def PyType_HasFeature_def)
  ultimately show ?thesis
    using assms(2,3)
    by (simp add: PyLayout_Create_def order_sum_def PyObject_Size_def layout_check_ordered_def
        PyObject_NewVar_def PyLayout_Create_fill_def Let_def upd_layout_def layout_clear_def
        PyDict_SetItem_def layout_fill_ordered_def Py_SIZE_def store_entry_def)
qed

lemma probe_buf_steps:
  assumes "probe_buf buf hs position cost0 = Some y"
  shows "hs = length buf \<longrightarrow> unat position < hs \<longrightarrow> hs < 2 ^ 32 \<longrightarrow>
     (\<exists>position' d. y = Inr (position', cost0 + int d)
        \<and> unat position' = (unat position + d) mod hs
        \<and> unat position' < hs \<and> \<not> 0 < sint (buf ! unat position')
        \<and> (\<forall>j<d. 0 < sint (buf ! ((unat position + j) mod hs))))"
proof (rule probe_buf.raw_induct [where P = "\<lambda>buf hs position cost0 y.
     hs = length buf \<longrightarrow> unat position < hs \<longrightarrow> hs < 2 ^ 32 \<longrightarrow>
     (\<exists>position' d. y = Inr (position', cost0 + int d)
        \<and> unat position' = (unat position + d) mod hs
        \<and> unat position' < hs \<and> \<not> 0 < sint (buf ! unat position')
        \<and> (\<forall>j<d. 0 < sint (buf ! ((unat position + j) mod hs))))", OF _ assms])
  fix probe :: "8 word list \<Rightarrow> nat \<Rightarrow> 32 word \<Rightarrow> int \<Rightarrow> (fault + 32 word \<times> int) option"
    and buf hs position cost0 y
  assume IH: "\<And>buf hs position cost0 y. probe buf hs position cost0 = Some y \<Longrightarrow>
     hs = length buf \<longrightarrow> unat position < hs \<longrightarrow> hs < 2 ^ 32 \<longrightarrow>
     (\<exists>position' d. y = Inr (position', cost0 + int d)
        \<and> unat position' = (unat position + d) mod hs
        \<and> unat position' < hs \<and> \<not> 0 < sint (buf ! unat position')
        \<and> (\<forall>j<d. 0 < sint (buf ! ((unat position + j) mod hs))))"
    and step: "(if length buf \<le> unat position then Some (Inl OutOfBounds)
      else if 0 < sint (buf ! unat position)
           then probe buf hs (if unat (position + 1) = hs then 0 else position + 1) (cost0 + 1)
           else Some (Inr (position, cost0))) = Some y"
  show "hs = length buf \<longrightarrow> unat position < hs \<longrightarrow> hs < 2 ^ 32 \<longrightarrow>
     (\<exists>position' d. y = Inr (position', cost0 + int d)
        \<and> unat position' = (unat position + d) mod hs
        \<and> unat position' < hs \<and> \<not> 0 < sint (buf ! unat position')
        \<and> (\<forall>j<d. 0 < sint (buf ! ((unat position + j) mod hs))))"
  proof (intro impI)
    assume hs: "hs = length buf" and inb: "unat position < hs" and small: "hs < 2 ^ 32"
    show "\<exists>position' d. y = Inr (position', cost0 + int d)
        \<and> unat position' = (unat position + d) mod hs
        \<and> unat position' < hs \<and> \<not> 0 < sint (buf ! unat position')
        \<and> (\<forall>j<d. 0 < sint (buf ! ((unat position + j) mod hs)))"
    proof (cases "0 < sint (buf ! unat position)")
      case False
      with step hs inb have "y = Inr (position, cost0)" by auto
      with False inb show ?thesis
        by (intro exI [of _ position] exI [of _ 0]) simp
    next
      case occ: True
      let ?next = "if unat (position + 1) = hs then 0 else position + 1"
      have un: "unat ?next = (unat position + 1) mod hs"
        using inb small by (rule unat_next_position)
      from inb have "0 < hs" by simp
      then have "(unat position + 1) mod hs < hs" by (rule mod_less_divisor)
      with un have nb: "unat ?next < hs" by simp
      from step hs inb occ have "probe buf hs ?next (cost0 + 1) = Some y" by simp
      from IH [OF this] hs nb small obtain position' d where
        d: "y = Inr (position', cost0 + 1 + int d)"
           "unat position' = (unat ?next + d) mod hs"
           "unat position' < hs" "\<not> 0 < sint (buf ! unat position')"
           "\<forall>j<d. 0 < sint (buf ! ((unat ?next + j) mod hs))"
        by blast
      have shift: "\<And>j. (unat ?next + j) mod hs = (unat position + Suc j) mod hs"
        by (simp add: un mod_add_left_eq)
      have "\<forall>j<Suc d. 0 < sint (buf ! ((unat position + j) mod hs))"
      proof (intro allI impI)
        fix j assume "j < Suc d"
        show "0 < sint (buf ! ((unat position + j) mod hs))"
        proof (cases j)
          case 0
          with occ inb show ?thesis by simp
        next
          case (Suc j')
          with \<open>j < Suc d\<close> d(5) have "0 < sint (buf ! ((unat ?next + j') mod hs))" by simp
          with Suc shift show ?thesis by simp
        qed
      qed
      with d shift show ?thesis
        by (intro exI [of _ position'] exI [of _ "Suc d"]) simp
    qed
  qed
qed

lemma probe_buf_result:
  assumes "probe_buf buf hs position cost0 = Some y"
    and "hs = length buf" and "unat position < hs" and "hs < 2 ^ 32"
  shows "\<exists>position' d. y = Inr (position', cost0 + int d) \<and> d < hs
           \<and> unat position' < hs \<and> \<not> 0 < sint (buf ! unat position')"
proof -
  from probe_buf_steps [OF assms(1)] assms(2-4) obtain position' d where
    d: "y = Inr (position', cost0 + int d)" "unat position' = (unat position + d) mod hs"
       "unat position' < hs" "\<not> 0 < sint (buf ! unat position')"
       "\<forall>j<d. 0 < sint (buf ! ((unat position + j) mod hs))"
    by blast
  have "d < hs"
  proof (rule ccontr)
    assume "\<not> d < hs"
    then have "d mod hs < d" using assms(3)
      by (metis leI le_less_trans less_nat_zero_code mod_less_divisor neq0_conv order.strict_trans2)
    with d(5) have "0 < sint (buf ! ((unat position + d mod hs) mod hs))" by blast
    then have "0 < sint (buf ! ((unat position + d) mod hs))"
      by (simp add: mod_add_right_eq)
    with d(2,4) show False by simp
  qed
  with d show ?thesis by blast
qed

lemma filter_update_free:
  "p < length xs \<Longrightarrow> \<not> P (xs ! p) \<Longrightarrow> P v \<Longrightarrow>
     length (filter P (xs[p := v])) = Suc (length (filter P xs))"
proof (induction xs arbitrary: p)
  case Nil
  then show ?case by simp
next
  case (Cons x xs)
  then show ?case by (cases p) auto
qed

lemma sint_small_cost:
  assumes "1 \<le> c" and "c \<le> 127"
  shows "0 < sint (word_of_int c :: 8 word)"
proof -
  have "signed_take_bit (7 :: nat) c = c"
    using assms by (intro signed_take_bit_int_eq_self) simp_all
  then have "sint (word_of_int c :: 8 word) = c"
    by (simp add: sint_sbintrunc')
  with assms show ?thesis by simp
qed

lemma fast_hash_place_room:
  assumes "fast_hash_place m hs shift buf cost d = Some (Inr r)"
    and "length buf = hs" and "hs \<le> 126"
  shows "length (filter (\<lambda>c. 0 < sint c) buf) + length d \<le> hs"
  using assms
proof (induction d arbitrary: buf cost)
  case Nil
  have "length (filter (\<lambda>c. 0 < sint c) buf) \<le> length buf" by (rule length_filter_le)
  with Nil show ?case by simp
next
  case (Cons kv d)
  obtain key v where kv: "kv = (key, v)" by (cases kv)
  let ?home = "word_of_nat (unat (drop_bit shift (ly_id (heap m v))) mod hs) :: 32 word"
  from Cons.prems(1) kv have pos: "0 < hs" by (auto split: if_splits)
  from Cons.prems(1) kv pos obtain y where
    pr: "probe_buf buf hs ?home 1 = Some y"
    by (auto split: option.splits)
  have hb: "unat ?home < hs" using pos by (rule unat_of_nat_mod_less)
  from Cons.prems(3) have small: "hs < 2 ^ 32" by simp
  from probe_buf_result [OF pr Cons.prems(2) [symmetric] hb small] obtain position dd where
    y: "y = Inr (position, 1 + int dd)" and dd: "dd < hs" and
    pb: "unat position < hs" and free: "\<not> 0 < sint (buf ! unat position)"
    by blast
  from Cons.prems(1) kv pos pr y have
    rec: "fast_hash_place m hs shift (buf[unat position := word_of_int (1 + int dd)])
            (cost + (1 + int dd)) d = Some (Inr r)"
    by simp
  have "0 < sint (word_of_int (1 + int dd) :: 8 word)"
    using dd Cons.prems(3) by (intro sint_small_cost) simp_all
  with pb free Cons.prems(2) have
    "length (filter (\<lambda>c. 0 < sint c) (buf[unat position := word_of_int (1 + int dd)]))
       = Suc (length (filter (\<lambda>c. 0 < sint c) buf))"
    by (intro filter_update_free) simp_all
  moreover from Cons.IH [OF rec _ Cons.prems(3)] Cons.prems(2) have
    "length (filter (\<lambda>c. 0 < sint c) (buf[unat position := word_of_int (1 + int dd)]))
       + length d \<le> hs"
    by simp
  ultimately show ?case by simp
qed

lemma layout_fast_hash_two_slots:
  assumes "layout_fast_hash m d 2 new_id = Some (Inr best)"
  shows "length d \<le> 1"
proof -
  from assms obtain cost where
    c: "fast_hash_cost m d 2 new_id 0 0 = Some (Inr cost)"
    unfolding layout_fast_hash_def
    by (subst (asm) fast_hash_for.simps) (auto split: option.splits sum.splits)
  let ?home = "word_of_nat (unat (drop_bit 0 new_id) mod 2) :: 32 word"
  let ?buf = "(replicate 2 (0 :: 8 word))[unat ?home := 1]"
  from c obtain r where
    p: "fast_hash_place m 2 0 ?buf 0 d = Some (Inr r)"
    unfolding fast_hash_cost_def Let_def dict_items_from_def
    by (auto split: option.splits sum.splits)
  have hb: "unat ?home < 2" by (rule unat_of_nat_mod_less) simp
  have "length (filter (\<lambda>c. 0 < sint c) ?buf)
          = Suc (length (filter (\<lambda>c. 0 < sint c) (replicate 2 (0 :: 8 word))))"
    using hb by (intro filter_update_free) simp_all
  then have one: "length (filter (\<lambda>c. 0 < sint c) ?buf) = 1" by simp
  from fast_hash_place_room [OF p] have
    "length (filter (\<lambda>c. 0 < sint c) ?buf) + length d \<le> 2" by simp
  with one show ?thesis by simp
qed

lemma store_entry_stray:
  "stray (store_entry m p i e) = (if i < Py_SIZE (heap m p) then stray m else stray m @ [(p, i, e)])"
  by (simp add: store_entry_def set_entry_def)

lemma fill_ordered_loop_stray:
  assumes "fill_ordered_loop layout base m offset d = (m', offset')"
  shows "\<exists>xs. stray m' = stray m @ xs
           \<and> (xs = [] \<longrightarrow> (\<forall>(k, v) \<in> set d. unat (ly_order (heap m v)) < Py_SIZE (heap m layout)))"
  using assms
proof (induction d arbitrary: m offset)
  case Nil
  then show ?case by simp
next
  case (Cons kv d)
  obtain key v' where kv: "kv = (key, v')" by (cases kv)
  let ?off = "offset + word_of_int (ly_extensionsize (heap m v'))"
  let ?e = "\<lparr>le_type = Some key, le_offset = - base - ?off\<rparr>"
  let ?m1 = "store_entry m layout (unat (ly_order (heap m v'))) ?e"
  from Cons.prems kv have rec: "fill_ordered_loop layout base ?m1 ?off d = (m', offset')"
    by (simp add: Let_def)
  from Cons.IH [OF rec] obtain xs where
    xs: "stray m' = stray ?m1 @ xs"
        "xs = [] \<longrightarrow> (\<forall>(k, v) \<in> set d. unat (ly_order (heap ?m1 v)) < Py_SIZE (heap ?m1 layout))"
    by blast
  have ff: "fixed_fields (heap m q) (heap ?m1 q)" for q
    using only_table_store_entry [of layout m] by (simp add: only_table_def)
  show ?case
  proof (cases "unat (ly_order (heap m v')) < Py_SIZE (heap m layout)")
    case True
    then have "stray ?m1 = stray m" by (simp add: store_entry_stray)
    with xs(1) have a: "stray m' = stray m @ xs" by simp
    have "xs = [] \<longrightarrow> (\<forall>(k, v) \<in> set (kv # d). unat (ly_order (heap m v)) < Py_SIZE (heap m layout))"
    proof
      assume "xs = []"
      with xs(2) have "\<forall>(k, v) \<in> set d. unat (ly_order (heap ?m1 v)) < Py_SIZE (heap ?m1 layout)"
        by simp
      moreover have "ly_order (heap ?m1 q) = ly_order (heap m q)"
        "Py_SIZE (heap ?m1 q) = Py_SIZE (heap m q)" for q
        using ff [of q] by (simp_all add: fixed_fields_def Py_SIZE_def)
      ultimately show "\<forall>(k, v) \<in> set (kv # d). unat (ly_order (heap m v)) < Py_SIZE (heap m layout)"
        using True kv by simp
    qed
    with a show ?thesis by blast
  next
    case False
    then have "stray ?m1 = stray m @ [(layout, unat (ly_order (heap m v')), ?e)]"
      by (simp add: store_entry_stray)
    with xs(1) have "stray m' = stray m @ ((layout, unat (ly_order (heap m v')), ?e) # xs)" by simp
    then show ?thesis by blast
  qed
qed

lemma layout_check_ordered_loop_distinct:
  assumes "layout_check_ordered_loop m items buf d"
    and "\<forall>c \<in> set buf. c = 0 \<or> c = 1" and "length buf = items"
  shows "distinct (map (\<lambda>(k, v). ly_order (heap m v)) d)
         \<and> (\<forall>(k, v) \<in> set d. buf ! unat (ly_order (heap m v)) = 0)"
  using assms
proof (induction d arbitrary: buf)
  case Nil
  then show ?case by simp
next
  case (Cons kv d)
  obtain key v where kv: "kv = (key, v)" by (cases kv)
  let ?o = "ly_order (heap m v)"
  let ?buf = "buf[unat ?o := buf ! unat ?o + 1]"
  from Cons.prems(1) kv have inb: "unat ?o < items" and free: "\<not> 0 < sint (buf ! unat ?o)"
    and rec: "layout_check_ordered_loop m items ?buf d"
    by (auto simp: Let_def split: if_splits)
  from inb Cons.prems(2,3) have "buf ! unat ?o = 0 \<or> buf ! unat ?o = 1" by simp
  with free have zero: "buf ! unat ?o = 0" by auto
  have "\<forall>c \<in> set ?buf. c = 0 \<or> c = 1"
    using Cons.prems(2) zero by (auto dest!: set_update_subset_insert [THEN subsetD])
  from Cons.IH [OF rec this] Cons.prems(3) have
    ih: "distinct (map (\<lambda>(k, v). ly_order (heap m v)) d)"
        "\<forall>(k, v') \<in> set d. ?buf ! unat (ly_order (heap m v')) = 0"
    by simp_all
  have mark: "?buf ! unat ?o = 1" using inb Cons.prems(3) zero by simp
  have other: "\<forall>(k, v') \<in> set d. ly_order (heap m v') \<noteq> ?o \<and> buf ! unat (ly_order (heap m v')) = 0"
  proof (intro ballI, clarify)
    fix k v' assume "(k, v') \<in> set d"
    with ih(2) have z: "?buf ! unat (ly_order (heap m v')) = 0" by blast
    with mark have ne: "ly_order (heap m v') \<noteq> ?o" by auto
    then have "unat (ly_order (heap m v')) \<noteq> unat ?o" by (simp add: word_unat_eq_iff)
    with z have "buf ! unat (ly_order (heap m v')) = 0" by simp
    with ne show "ly_order (heap m v') \<noteq> ?o \<and> buf ! unat (ly_order (heap m v')) = 0" by simp
  qed
  from other have "?o \<notin> set (map (\<lambda>(k, v). ly_order (heap m v)) d)" by auto
  with ih(1) other zero kv show ?case by auto
qed

lemma PyLayout_Create_hashed_search:
  assumes c: "PyLayout_Create env m type bases sz = Some (Inr (Some result, m'))"
    and h: "\<not> layout_check_ordered_loop m (length (layout_collect_loop m [] bases))
              (replicate (length (layout_collect_loop m [] bases)) 0) (layout_collect_loop m [] bases)"
  shows "\<exists>m2 best. layout_fast_hash m2 (layout_collect_loop m [] bases) 2 (rand_value env)
                      = Some (Inr best)"
proof -
  let ?d = "layout_collect_loop m [] bases"
  from PyLayout_Create_cases [OF c] have ok: "dict_new_ok env" and nv: "newvar_ok env"
    and pos: "0 < order_sum env (Some ?d) sz"
    by simp_all
  from ok have lc: "layout_collect env m bases = Some ?d"
    by (simp add: layout_collect_def)
  let ?m1 = "(upd_layout m (brk m) (\<lambda>l. l\<lparr>ly_entries := replicate 2 (fresh_entry env)\<rparr>))\<lparr>brk := Suc (brk m)\<rparr>"
  let ?m2 = "upd_layout ?m1 (brk m) (\<lambda>l. l\<lparr>ly_cast := CastHash\<rparr>)"
  from c lc pos nv h obtain best where
    "layout_fast_hash ?m2 ?d 2 (rand_value env) = Some (Inr best)"
    by (auto simp: PyLayout_Create_def layout_check_ordered_def PyObject_NewVar_def
        Let_def split: option.splits sum.splits)
  then show ?thesis by blast
qed

lemma PyLayout_Create_fill_ordered_range:
  assumes f: "PyLayout_Create_fill m0 result type d sz order new_id = Some (Inr (r, m'))"
    and o: "ly_cast (heap m0 result) = CastOrdered"
    and ns: "stray m' = stray m0"
    and kv: "(k, v) \<in> set (if sz > 0 then PyDict_SetItem d type result else d)"
    and ne: "v \<noteq> result"
  shows "unat (ly_order (heap m0 v)) < Py_SIZE (heap m0 result)"
proof -
  let ?m1 = "upd_layout m0 result
                 (\<lambda>l. l\<lparr>ly_id := new_id, ly_order := order, ly_extensionsize := sz,
                        ly_allocsize := 0, ly_search := 1\<rparr>)"
  let ?m2 = "layout_clear ?m1 result"
  let ?d1 = "if sz > 0 then PyDict_SetItem d type result else d"
  have c2: "ly_cast (heap ?m2 result) = CastOrdered" using o by (simp add: layout_clear_def)
  from f c2 have m': "m' = layout_fill_ordered ?m2 result type ?d1"
    unfolding PyLayout_Create_fill_def Let_def
    by (auto split: if_splits option.splits sum.splits)
  obtain m3 offset where
    l: "fill_ordered_loop result (layout_base ?m2 type) ?m2 0 ?d1 = (m3, offset)"
    by (cases "fill_ordered_loop result (layout_base ?m2 type) ?m2 0 ?d1")
  with m' have "stray m' = stray m3" by (simp add: layout_fill_ordered_def)
  moreover have "stray ?m2 = stray m0" by (simp add: layout_clear_def)
  moreover from fill_ordered_loop_stray [OF l] obtain xs where
    xs: "stray m3 = stray ?m2 @ xs"
        "xs = [] \<longrightarrow> (\<forall>(k, v) \<in> set ?d1. unat (ly_order (heap ?m2 v)) < Py_SIZE (heap ?m2 result))"
    by blast
  ultimately have "xs = []" using ns by simp
  with xs(2) kv have "unat (ly_order (heap ?m2 v)) < Py_SIZE (heap ?m2 result)" by blast
  moreover have "heap ?m2 v = heap m0 v" using ne by (simp add: layout_clear_def)
  moreover have "Py_SIZE (heap ?m2 result) = Py_SIZE (heap m0 result)"
    by (simp add: layout_clear_def Py_SIZE_def)
  ultimately show ?thesis by simp
qed

lemma PyDict_SetItem_keeps:
  "(k, v) \<in> set d \<Longrightarrow> key \<noteq> k \<Longrightarrow> (k, v) \<in> set (PyDict_SetItem d key value)"
  by (force simp: PyDict_SetItem_def image_iff)

lemma PyLayout_Create_two_bases:
  assumes c: "PyLayout_Create env m type bases sz = Some (Inr (Some result, m'))"
    and nb: "type \<notin> set bases"
    and al: "\<forall>t \<in> set bases. Py_LAYOUT m t \<noteq> Some (brk m)"
    and ns: "stray m' = stray m"
  shows "length (layout_collect_loop m [] bases) \<le> 1"
proof (rule ccontr)
  let ?d = "layout_collect_loop m [] bases"
  assume "\<not> length ?d \<le> 1"
  then obtain kv1 kv2 rest where d: "?d = kv1 # kv2 # rest"
    by (cases ?d; cases "tl ?d") auto
  obtain k1 v1 k2 v2 where kv: "kv1 = (k1, v1)" "kv2 = (k2, v2)"
    by (cases kv1; cases kv2) auto
  from PyLayout_Create_cases [OF c] obtain m0 where
    r: "result = brk m" and
    f: "PyLayout_Create_fill m0 result type ?d (sint sz) 1 (rand_value env) = Some (Inr (Some result, m'))" and
    o: "frame_outside result m m0" and s0: "stray m0 = stray m" and
    cs: "(layout_check_ordered_loop m (length ?d) (replicate (length ?d) 0) ?d
          \<and> ly_cast (heap m0 result) = CastOrdered \<and> Py_SIZE (heap m0 result) = 1)
        \<or> \<not> layout_check_ordered_loop m (length ?d) (replicate (length ?d) 0) ?d"
    by blast
  show False
  proof (cases "layout_check_ordered_loop m (length ?d) (replicate (length ?d) 0) ?d")
    case False
    from PyLayout_Create_hashed_search [OF c False] obtain m2 best where
      "layout_fast_hash m2 ?d 2 (rand_value env) = Some (Inr best)" by blast
    from layout_fast_hash_two_slots [OF this] \<open>\<not> length ?d \<le> 1\<close> show False by simp
  next
    case True
    with cs have co: "ly_cast (heap m0 result) = CastOrdered" and s1: "Py_SIZE (heap m0 result) = 1"
      by simp_all
    from layout_check_ordered_loop_distinct [OF True] have
      "distinct (map (\<lambda>(k, v). ly_order (heap m v)) ?d)" by simp
    with d kv have diff: "ly_order (heap m v1) \<noteq> ly_order (heap m v2)" by simp
    have in1: "(k1, v1) \<in> set ?d" and in2: "(k2, v2) \<in> set ?d" using d kv by simp_all
    { fix k v assume i: "(k, v) \<in> set ?d"
      from layout_collect_loop_set [OF i] have kb: "k \<in> set bases" and lv: "Py_LAYOUT m k = Some v"
        by simp_all
      from kb lv al r have ne: "v \<noteq> result" by auto
      from kb nb have "type \<noteq> k" by auto
      with i have "(k, v) \<in> set (if sint sz > 0 then PyDict_SetItem ?d type result else ?d)"
        by (simp add: PyDict_SetItem_keeps)
      from PyLayout_Create_fill_ordered_range [OF f co _ this ne] ns s0 s1
      have "unat (ly_order (heap m0 v)) = 0" by simp
      moreover from o ne have "heap m0 v = heap m v" by (simp add: frame_outside_def)
      ultimately have "ly_order (heap m v) = 0" by (simp add: unat_eq_zero)
    }
    from this [OF in1] this [OF in2] diff show False by simp
  qed
qed

lemma PyLayout_Create_hashed_one_base:
  assumes c: "PyLayout_Create env m type bases sz = Some (Inr (Some result, m'))"
    and h: "ly_cast (heap m' result) = CastHash"
  shows "length (layout_collect_loop m [] bases) \<le> 1"
proof -
  let ?d = "layout_collect_loop m [] bases"
  from PyLayout_Create_cases [OF c] obtain m0 where
    f: "PyLayout_Create_fill m0 result type ?d (sint sz) 1 (rand_value env)
          = Some (Inr (Some result, m'))" and
    cs: "ly_cast (heap m0 result) = CastOrdered
         \<or> \<not> layout_check_ordered_loop m (length ?d) (replicate (length ?d) 0) ?d"
    by blast
  from PyLayout_Create_fill_frame [OF f] h cs have
    "\<not> layout_check_ordered_loop m (length ?d) (replicate (length ?d) 0) ?d" by auto
  from PyLayout_Create_hashed_search [OF c this] obtain m2 best where
    "layout_fast_hash m2 ?d 2 (rand_value env) = Some (Inr best)" by blast
  then show ?thesis by (rule layout_fast_hash_two_slots)
qed

lemma cast_hash_loop_unreached:
  assumes "unat start < length entries" and "length entries < 2 ^ 32"
    and "\<forall>i<n. le_type (entries ! ((unat start + i) mod length entries)) \<noteq> Some T"
  shows "cast_hash_loop entries obj T start n = Inr None"
  using assms
proof (induction n arbitrary: start)
  case 0
  then show ?case by simp
next
  case (Suc n)
  let ?next = "if unat (start + 1) = length entries then 0 else start + 1"
  have un: "unat ?next = (unat start + 1) mod length entries"
    using Suc.prems(1,2) by (rule unat_next_position)
  from Suc.prems(1) have "0 < length entries" by (cases entries) simp_all
  then have "(unat start + 1) mod length entries < length entries"
    by (rule mod_less_divisor)
  with un have nb: "unat ?next < length entries" by simp
  have shift: "\<And>j. (unat ?next + j) mod length entries = (unat start + Suc j) mod length entries"
    by (simp add: un mod_add_left_eq)
  from Suc.prems(3) have "le_type (entries ! ((unat start + 0) mod length entries)) \<noteq> Some T"
    by blast
  with Suc.prems(1) have here: "le_type (entries ! unat start) \<noteq> Some T" by simp
  have "\<forall>i<n. le_type (entries ! ((unat ?next + i) mod length entries)) \<noteq> Some T"
  proof (intro allI impI)
    fix i assume "i < n"
    then have "Suc i < Suc n" by simp
    with Suc.prems(3) have "le_type (entries ! ((unat start + Suc i) mod length entries)) \<noteq> Some T"
      by blast
    with shift show "le_type (entries ! ((unat ?next + i) mod length entries)) \<noteq> Some T" by simp
  qed
  from Suc.IH [OF nb Suc.prems(2) this] here Suc.prems(1) show ?case
    by (simp add: Let_def)
qed

lemma layout_cast_hash_unreached:
  assumes tl: "Py_LAYOUT m T = Some typelayout"
    and sh: "unat (ly_shift (heap m layout)) < 32"
    and sz: "0 < Py_SIZE (heap m layout)" "Py_SIZE (heap m layout) < 2 ^ 32"
    and w: "\<not> within_probe m layout T typelayout"
  shows "layout_cast_hash m layout obj T = Inr None"
proof -
  let ?entries = "ly_entries (heap m layout)"
  let ?start = "word_of_nat (hash_home m layout typelayout) :: 32 word"
  have len: "Py_SIZE (heap m layout) = length ?entries" by (simp add: Py_SIZE_def)
  have us: "unat ?start = hash_home m layout typelayout"
    unfolding hash_home_def using sz by (rule unat_home)
  have "hash_home m layout typelayout < Py_SIZE (heap m layout)"
    unfolding hash_home_def using sz(1) by (rule mod_less_divisor)
  then have hb: "unat ?start < length ?entries"
    by (simp only: us len)
  from w have "\<forall>i<unat (ly_search (heap m layout)).
       le_type (?entries ! ((unat ?start + i) mod length ?entries)) \<noteq> Some T"
    by (simp add: within_probe_def us len)
  with hb sz(2) have "cast_hash_loop ?entries obj T ?start (unat (ly_search (heap m layout))) = Inr None"
    by (intro cast_hash_loop_unreached) (simp_all add: len)
  then show ?thesis
    using tl sh sz(1) by (simp add: layout_cast_hash_def Let_def hash_home_def)
qed

lemma PyLayout_Create_fill_not_null:
  "PyLayout_Create_fill m0 result type d sz order new_id \<noteq> Some (Inr (None, m'))"
  by (auto simp: PyLayout_Create_fill_def Let_def split: sum.splits option.splits)

lemma PyLayout_Create_null_iff:
  "(\<exists>m'. PyLayout_Create env m type bases sz = Some (Inr (None, m')))
     \<longleftrightarrow> \<not> 0 < order_sum env (layout_collect env m bases) sz"
proof (cases "0 < order_sum env (layout_collect env m bases) sz")
  case False
  then show ?thesis by (simp add: PyLayout_Create_def Let_def)
next
  case True
  have "PyLayout_Create env m type bases sz \<noteq> Some (Inr (None, m'))" for m'
    using True PyLayout_Create_fill_not_null
    by (auto simp: PyLayout_Create_def Let_def split: sum.splits option.splits)
  with True show ?thesis by simp
qed

lemma PyLayout_Create_alloc_failure:
  assumes "\<not> dict_new_ok env \<or> \<not> newvar_ok env"
  shows "PyLayout_Create env m type bases sz = Some (Inl NullPointer)
         \<or> PyLayout_Create env m type bases sz = Some (Inr (None, m))"
proof (cases "dict_new_ok env")
  case False
  then show ?thesis
    by (simp add: PyLayout_Create_def layout_collect_def layout_check_ordered_def
        Let_def)
next
  case True
  with assms have "\<not> newvar_ok env" by simp
  with True show ?thesis
    by (simp add: PyLayout_Create_def layout_collect_def layout_check_ordered_def
        PyObject_NewVar_def Let_def)
qed

lemma ex_table: "(replicate 2 e)[Suc 0 := a, 0 := b] = [b, a]"
  by (simp add: numeral_2_eq_2)

lemma ex_create_B:
  "\<exists>m'. PyLayout_Create ex_env ex_mem_A 11 [10] 16 = Some (Inr (Some 1, m'))
        \<and> heap m' 1 = ex_layout_B \<and> ob_type m' = ob_type ex_mem_A"
  by (simp add: layout_defs ex_defs probe_buf.simps probe_entries.simps ex_table)

lemma ex_create_root:
  "\<exists>m'. PyLayout_Create ex_env ex_mem_empty 10 [] 8 = Some (Inr (Some 0, m'))"
  using PyLayout_Create_root [of ex_env 8 "[]" ex_mem_empty 10]
  by (simp add: ex_env_def ex_mem_empty_def) blast

lemma ex_lookup_A: "PyObject_GetTypeData ex_mem_B 100 10 = Inr (Some 92)"
  by (simp add: layout_defs ex_defs unat_of_nat numeral_2_eq_2 [symmetric])

subsection \<open>Lookups\<close>

text \<open>
  C5. \<open>PyObject_GetTypeData(obj, T)\<close> returns \<open>NULL\<close> when the type of \<open>obj\<close> or
  \<open>T\<close> has no layout. When it returns an address, both have one, and the address is
  the object's address plus the offset stored in a slot of the object's layout table
  whose type pointer is exactly \<open>T\<close>. When no slot of the table holds \<open>T\<close> (and, for
  a hashed layout, the table is not empty and the shift is below 32, so that the C
  code is defined), it returns \<open>NULL\<close>. It also returns \<open>NULL\<close> when \<open>T\<close> is not
  within reach of the addressing strategy: in ordered mode when \<open>ly_order\<close> of \<open>T\<close>
  is not an index of the table or the slot at that index does not hold \<open>T\<close>; in
  hashed mode when no slot at fewer than \<open>ly_search\<close> probe steps from the home slot
  of \<open>T\<close> holds \<open>T\<close>.
\<close>

theorem get_extension_not_found:
  "(Py_LAYOUT m (Py_TYPE m obj) = None \<or> Py_LAYOUT m T = None
      \<longrightarrow> PyObject_GetTypeData m obj T = Inr None)
   \<and> (\<forall>a. PyObject_GetTypeData m obj T = Inr (Some a) \<longrightarrow>
         (\<exists>objlayout slot. Py_LAYOUT m (Py_TYPE m obj) = Some objlayout \<and> Py_LAYOUT m T \<noteq> None
            \<and> slot < Py_SIZE (heap m objlayout)
            \<and> le_type (ly_entries (heap m objlayout) ! slot) = Some T
            \<and> a = int obj + sint (le_offset (ly_entries (heap m objlayout) ! slot))))
   \<and> (\<forall>objlayout. Py_LAYOUT m (Py_TYPE m obj) = Some objlayout
         \<and> (\<forall>e \<in> set (ly_entries (heap m objlayout)). le_type e \<noteq> Some T)
         \<and> (ly_cast (heap m objlayout) = CastHash \<longrightarrow>
               0 < Py_SIZE (heap m objlayout) \<and> unat (ly_shift (heap m objlayout)) < 32)
         \<longrightarrow> PyObject_GetTypeData m obj T = Inr None)
   \<and> (\<forall>objlayout typelayout. Py_LAYOUT m (Py_TYPE m obj) = Some objlayout
         \<and> Py_LAYOUT m T = Some typelayout \<and> ly_cast (heap m objlayout) = CastOrdered
         \<and> (Py_SIZE (heap m objlayout) \<le> unat (ly_order (heap m typelayout))
              \<or> le_type (ly_entries (heap m objlayout) ! unat (ly_order (heap m typelayout))) \<noteq> Some T)
         \<longrightarrow> PyObject_GetTypeData m obj T = Inr None)
   \<and> (\<forall>objlayout typelayout. Py_LAYOUT m (Py_TYPE m obj) = Some objlayout
         \<and> Py_LAYOUT m T = Some typelayout \<and> ly_cast (heap m objlayout) = CastHash
         \<and> 0 < Py_SIZE (heap m objlayout) \<and> Py_SIZE (heap m objlayout) < 2 ^ 32
         \<and> unat (ly_shift (heap m objlayout)) < 32
         \<and> \<not> within_probe m objlayout T typelayout
         \<longrightarrow> PyObject_GetTypeData m obj T = Inr None)"
proof (intro conjI allI impI)
  assume "Py_LAYOUT m (Py_TYPE m obj) = None \<or> Py_LAYOUT m T = None"
  then show "PyObject_GetTypeData m obj T = Inr None"
    by (auto simp: PyObject_GetTypeData_def split: option.splits)
next
  fix a
  assume r: "PyObject_GetTypeData m obj T = Inr (Some a)"
  then obtain objlayout typelayout where
    ol: "Py_LAYOUT m (Py_TYPE m obj) = Some objlayout" and tl: "Py_LAYOUT m T = Some typelayout"
    and c: "call_ly_cast (ly_cast (heap m objlayout)) m objlayout obj T = Inr (Some a)"
    by (auto simp: PyObject_GetTypeData_def split: option.splits)
  have "\<exists>slot < Py_SIZE (heap m objlayout). le_type (ly_entries (heap m objlayout) ! slot) = Some T
          \<and> a = int obj + sint (le_offset (ly_entries (heap m objlayout) ! slot))"
  proof (cases "ly_cast (heap m objlayout)")
    case CastOrdered
    with c tl show ?thesis
      by (intro exI [of _ "unat (ly_order (heap m typelayout))"])
         (auto simp: call_ly_cast_def layout_cast_ordered_def Let_def Py_SIZE_def split: if_splits)
  next
    case CastHash
    with c tl have "\<exists>r n. cast_hash_loop (ly_entries (heap m objlayout)) obj T r n = Inr (Some a)"
      by (auto simp: call_ly_cast_def layout_cast_hash_def Let_def split: if_splits)
    then show ?thesis
      by (auto simp: Py_SIZE_def dest: cast_hash_loop_found)
  qed
  with ol tl show "\<exists>objlayout slot. Py_LAYOUT m (Py_TYPE m obj) = Some objlayout \<and> Py_LAYOUT m T \<noteq> None
            \<and> slot < Py_SIZE (heap m objlayout)
            \<and> le_type (ly_entries (heap m objlayout) ! slot) = Some T
            \<and> a = int obj + sint (le_offset (ly_entries (heap m objlayout) ! slot))"
    by auto
next
  fix objlayout
  assume h: "Py_LAYOUT m (Py_TYPE m obj) = Some objlayout
         \<and> (\<forall>e \<in> set (ly_entries (heap m objlayout)). le_type e \<noteq> Some T)
         \<and> (ly_cast (heap m objlayout) = CastHash \<longrightarrow>
               0 < Py_SIZE (heap m objlayout) \<and> unat (ly_shift (heap m objlayout)) < 32)"
  show "PyObject_GetTypeData m obj T = Inr None"
  proof (cases "Py_LAYOUT m T")
    case None
    then show ?thesis by (auto simp: PyObject_GetTypeData_def split: option.splits)
  next
    case (Some typelayout)
    show ?thesis
    proof (cases "ly_cast (heap m objlayout)")
      case CastOrdered
      with h Some show ?thesis
        by (auto simp: PyObject_GetTypeData_def call_ly_cast_def layout_cast_ordered_def Let_def Py_SIZE_def)
    next
      case CastHash
      with h have pos: "0 < length (ly_entries (heap m objlayout))"
        and sh: "unat (ly_shift (heap m objlayout)) < 32"
        by (auto simp: Py_SIZE_def)
      have "cast_hash_loop (ly_entries (heap m objlayout)) obj T
              (word_of_nat (unat (drop_bit (unat (ly_shift (heap m objlayout))) (ly_id (heap m typelayout)))
                 mod length (ly_entries (heap m objlayout))))
              (unat (ly_search (heap m objlayout))) = Inr None"
        using h unat_of_nat_mod_less [OF pos] by (intro cast_hash_loop_absent) auto
      with h Some CastHash pos sh show ?thesis
        by (simp add: PyObject_GetTypeData_def call_ly_cast_def layout_cast_hash_def Let_def Py_SIZE_def)
    qed
  qed
next
  fix objlayout typelayout
  assume h: "Py_LAYOUT m (Py_TYPE m obj) = Some objlayout
         \<and> Py_LAYOUT m T = Some typelayout \<and> ly_cast (heap m objlayout) = CastOrdered
         \<and> (Py_SIZE (heap m objlayout) \<le> unat (ly_order (heap m typelayout))
              \<or> le_type (ly_entries (heap m objlayout) ! unat (ly_order (heap m typelayout))) \<noteq> Some T)"
  then show "PyObject_GetTypeData m obj T = Inr None"
    by (auto simp: PyObject_GetTypeData_def call_ly_cast_def layout_cast_ordered_def Let_def)
next
  fix objlayout typelayout
  assume h: "Py_LAYOUT m (Py_TYPE m obj) = Some objlayout
         \<and> Py_LAYOUT m T = Some typelayout \<and> ly_cast (heap m objlayout) = CastHash
         \<and> 0 < Py_SIZE (heap m objlayout) \<and> Py_SIZE (heap m objlayout) < 2 ^ 32
         \<and> unat (ly_shift (heap m objlayout)) < 32
         \<and> \<not> within_probe m objlayout T typelayout"
  then have tl: "Py_LAYOUT m T = Some typelayout"
    and sh: "unat (ly_shift (heap m objlayout)) < 32"
    and sz: "0 < Py_SIZE (heap m objlayout)" "Py_SIZE (heap m objlayout) < 2 ^ 32"
    and w: "\<not> within_probe m objlayout T typelayout"
    by blast+
  from tl sh sz w have "layout_cast_hash m objlayout obj T = Inr None"
    by (rule layout_cast_hash_unreached)
  with h show "PyObject_GetTypeData m obj T = Inr None"
    by (simp add: PyObject_GetTypeData_def call_ly_cast_def)
qed

theorem get_extension_not_found_witness:
  "Py_LAYOUT ex_mem_B 12 = None \<and> PyObject_GetTypeData ex_mem_B 100 12 = Inr None
   \<and> PyObject_GetTypeData ex_mem_B 100 10 = Inr (Some 92)
   \<and> (\<exists>objlayout slot. Py_LAYOUT ex_mem_B (Py_TYPE ex_mem_B 100) = Some objlayout
         \<and> slot < Py_SIZE (heap ex_mem_B objlayout)
         \<and> le_type (ly_entries (heap ex_mem_B objlayout) ! slot) = Some 10
         \<and> 92 = int 100 + sint (le_offset (ly_entries (heap ex_mem_B objlayout) ! slot)))
   \<and> Py_SIZE (heap (ex_mem_A\<lparr>ob_type := (\<lambda>obj. 10)\<rparr>) 0)
         \<le> unat (ly_order (heap (ex_mem_A\<lparr>ob_type := (\<lambda>obj. 10)\<rparr>) 0))
   \<and> PyObject_GetTypeData (ex_mem_A\<lparr>ob_type := (\<lambda>obj. 10)\<rparr>) 100 10 = Inr None"
proof -
  let ?m = "ex_mem_A\<lparr>ob_type := (\<lambda>obj. 10)\<rparr>"
  have a: "Py_LAYOUT ex_mem_B 12 = None"
    by (simp add: Py_LAYOUT_def ex_mem_B_def)
  have b: "PyObject_GetTypeData ex_mem_B 100 10 = Inr (Some 92)"
    by (rule ex_lookup_A)
  from get_extension_not_found [of ex_mem_B 100 12, THEN conjunct1] a
  have c: "PyObject_GetTypeData ex_mem_B 100 12 = Inr None" by blast
  from get_extension_not_found [of ex_mem_B 100 10, THEN conjunct2, THEN conjunct1] b
  have d: "\<exists>objlayout slot. Py_LAYOUT ex_mem_B (Py_TYPE ex_mem_B 100) = Some objlayout
         \<and> slot < Py_SIZE (heap ex_mem_B objlayout)
         \<and> le_type (ly_entries (heap ex_mem_B objlayout) ! slot) = Some 10
         \<and> 92 = int 100 + sint (le_offset (ly_entries (heap ex_mem_B objlayout) ! slot))"
    by blast
  have e: "Py_LAYOUT ?m (Py_TYPE ?m 100) = Some 0" "Py_LAYOUT ?m 10 = Some 0"
    "ly_cast (heap ?m 0) = CastOrdered"
    "Py_SIZE (heap ?m 0) \<le> unat (ly_order (heap ?m 0))"
    by (simp_all add: Py_LAYOUT_def Py_TYPE_def Py_SIZE_def ex_mem_A_def ex_layout_A_def)
  from get_extension_not_found [of ?m 100 10, THEN conjunct2, THEN conjunct2, THEN conjunct2,
      THEN conjunct1, THEN spec, THEN spec, THEN mp, of 0 0] e
  have f: "PyObject_GetTypeData ?m 100 10 = Inr None" by blast
  from a b c d e(4) f show ?thesis by blast
qed

text \<open>
  C8. The result of \<open>PyObject_GetTypeData(obj, T)\<close> is a function of the type of
  \<open>obj\<close>, the \<open>tp_cache\<close> slots and the two layout objects involved, and of
  nothing else: in any two memories that agree on these, the call returns the same
  address or the same \<open>NULL\<close>. The lookup functions write nothing (they take the
  memory and return no memory).
\<close>

theorem get_extension_stable:
  assumes "tp_cache m' = tp_cache m" and "ob_type m' obj = ob_type m obj"
    and "\<forall>l. Py_LAYOUT m (Py_TYPE m obj) = Some l \<or> Py_LAYOUT m T = Some l \<longrightarrow> heap m' l = heap m l"
  shows "PyObject_GetTypeData m' obj T = PyObject_GetTypeData m obj T"
proof (cases "Py_LAYOUT m (Py_TYPE m obj)")
  case None
  with assms show ?thesis
    by (simp add: PyObject_GetTypeData_def Py_LAYOUT_def Py_TYPE_def)
next
  case ol: (Some objlayout)
  show ?thesis
  proof (cases "Py_LAYOUT m T")
    case None
    with assms ol show ?thesis
      by (simp add: PyObject_GetTypeData_def Py_LAYOUT_def Py_TYPE_def)
  next
    case (Some typelayout)
    with assms ol have h: "heap m' objlayout = heap m objlayout" "heap m' typelayout = heap m typelayout"
      by blast+
    have o: "layout_cast_ordered m' objlayout obj T = layout_cast_ordered m objlayout obj T"
      using assms(1) Some h by (simp add: layout_cast_ordered_def Py_LAYOUT_def Let_def)
    have c: "layout_cast_hash m' objlayout obj T = layout_cast_hash m objlayout obj T"
      using assms(1) Some h by (simp add: layout_cast_hash_def Py_LAYOUT_def Let_def)
    have "call_ly_cast (ly_cast (heap m objlayout)) m' objlayout obj T
            = call_ly_cast (ly_cast (heap m objlayout)) m objlayout obj T"
      using o c by (cases "ly_cast (heap m objlayout)") (simp_all add: call_ly_cast_def)
    with assms(1,2) ol Some h show ?thesis
      by (simp add: PyObject_GetTypeData_def Py_LAYOUT_def Py_TYPE_def)
  qed
qed

theorem get_extension_stable_witness:
  "PyObject_GetTypeData (ex_mem_B\<lparr>heap := (heap ex_mem_B)(2 := ex_layout_A), brk := 3\<rparr>) 100 10
     = PyObject_GetTypeData ex_mem_B 100 10
   \<and> PyObject_GetTypeData ex_mem_B 100 10 = Inr (Some 92)"
proof -
  have "\<forall>l. Py_LAYOUT ex_mem_B (Py_TYPE ex_mem_B 100) = Some l \<or> Py_LAYOUT ex_mem_B 10 = Some l
          \<longrightarrow> heap (ex_mem_B\<lparr>heap := (heap ex_mem_B)(2 := ex_layout_A), brk := 3\<rparr>) l = heap ex_mem_B l"
    by (simp add: Py_LAYOUT_def Py_TYPE_def ex_mem_B_def)
  then have "PyObject_GetTypeData (ex_mem_B\<lparr>heap := (heap ex_mem_B)(2 := ex_layout_A), brk := 3\<rparr>) 100 10
     = PyObject_GetTypeData ex_mem_B 100 10"
    by (intro get_extension_stable) simp_all
  then show ?thesis using ex_lookup_A by simp
qed

subsection \<open>Construction\<close>

text \<open>
  C3. Let \<open>_PyLayout_Create\<close> return a layout in hashed mode, and let \<open>(key, value)\<close>
  be one of the items it placed: a base with its layout, or the new type with the new
  layout when \<open>size > 0\<close>. Then some slot at fewer than \<open>ly_search\<close> probe steps from
  the home slot of \<open>key\<close> holds \<open>key\<close>, and, once the new layout is stored in the
  \<open>tp_cache\<close> of the new type, \<open>PyObject_GetTypeData\<close> on an object of the new type
  returns the object's address plus the offset stored in a slot of the table that
  holds \<open>key\<close>.
\<close>

theorem hashed_entries_reachable:
  assumes create: "PyLayout_Create env m type bases sz = Some (Inr (Some result, m'))"
    and hashed: "ly_cast (heap m' result) = CastHash"
    and placed: "(key, value) \<in> set (if 0 < sint sz
                   then PyDict_SetItem (layout_collect_loop m [] bases) type result
                   else layout_collect_loop m [] bases)"
    and notbase: "type \<notin> set bases"
    and objtype: "Py_TYPE m' obj = type"
  shows "within_probe m' result key value
         \<and> (\<exists>slot < Py_SIZE (heap m' result).
               le_type (ly_entries (heap m' result) ! slot) = Some key
               \<and> PyObject_GetTypeData (m'\<lparr>tp_cache := (tp_cache m')(type := Some result)\<rparr>) obj key
                   = Inr (Some (int obj + sint (le_offset (ly_entries (heap m' result) ! slot)))))"
proof -
  let ?d = "layout_collect_loop m [] bases"
  let ?m'' = "m'\<lparr>tp_cache := (tp_cache m')(type := Some result)\<rparr>"
  from PyLayout_Create_cases [OF create] obtain m0 where
    f: "PyLayout_Create_fill m0 result type ?d (sint sz) 1 (rand_value env)
          = Some (Inr (Some result, m'))" and
    o: "frame_outside result m m0" and
    c: "(ly_cast (heap m0 result) = CastOrdered \<and> Py_SIZE (heap m0 result) = 1)
        \<or> (ly_cast (heap m0 result) = CastHash \<and> Py_SIZE (heap m0 result) = 2)"
    by blast
  from PyLayout_Create_fill_frame [OF f] have
    ff: "frame_outside result m0 m'" "ly_cast (heap m' result) = ly_cast (heap m0 result)"
    by simp_all
  with hashed c have h0: "ly_cast (heap m0 result) = CastHash" and s0: "Py_SIZE (heap m0 result) = 2"
    by auto
  from s0 have small: "Py_SIZE (heap m0 result) < 2 ^ 32" by simp
  from PyLayout_Create_fill_hash_within [OF f h0 small placed] have
    w: "within_probe m' result key value" and sh: "unat (ly_shift (heap m' result)) < 32"
    and pos: "0 < Py_SIZE (heap m' result)"
    by simp_all
  from PyLayout_Create_fill_frame [OF f] s0 have s': "Py_SIZE (heap m' result) = 2" by simp
  from o ff(1) have tc: "tp_cache m' = tp_cache m"
    by (simp add: frame_outside_def)
  have tl: "Py_LAYOUT ?m'' key = Some value"
  proof (cases "(key, value) \<in> set ?d")
    case True
    from layout_collect_loop_set [OF this] have "key \<in> set bases" "Py_LAYOUT m key = Some value"
      by simp_all
    with notbase tc show ?thesis by (auto simp: Py_LAYOUT_def)
  next
    case False
    with placed have "(key, value) = (type, result)"
      by (auto dest: PyDict_SetItem_set split: if_splits)
    then show ?thesis by (simp add: Py_LAYOUT_def)
  qed
  have w'': "within_probe ?m'' result key value"
    using w by (simp add: within_probe_def hash_home_def)
  have "\<exists>slot < Py_SIZE (heap ?m'' result).
           le_type (ly_entries (heap ?m'' result) ! slot) = Some key
           \<and> layout_cast_hash ?m'' result obj key
               = Inr (Some (int obj + sint (le_offset (ly_entries (heap ?m'' result) ! slot))))"
    using w'' tl sh pos s' by (intro within_probe_lookup) simp_all
  moreover have "PyObject_GetTypeData ?m'' obj key = layout_cast_hash ?m'' result obj key"
    using objtype tl hashed
    by (simp add: PyObject_GetTypeData_def Py_LAYOUT_def Py_TYPE_def call_ly_cast_def)
  ultimately show ?thesis using w by simp
qed

theorem hashed_entries_reachable_witness:
  "\<exists>m'. PyLayout_Create ex_env ex_mem_A 11 [10] 16 = Some (Inr (Some 1, m'))
        \<and> ly_cast (heap m' 1) = CastHash
        \<and> (10, 0) \<in> set (if 0 < sint (16 :: 64 word)
                   then PyDict_SetItem (layout_collect_loop ex_mem_A [] [10]) 11 1
                   else layout_collect_loop ex_mem_A [] [10])
        \<and> 11 \<notin> set [10 :: addr] \<and> Py_TYPE m' 100 = 11
        \<and> within_probe m' 1 10 0
        \<and> (\<exists>slot < Py_SIZE (heap m' 1).
               le_type (ly_entries (heap m' 1) ! slot) = Some 10
               \<and> PyObject_GetTypeData (m'\<lparr>tp_cache := (tp_cache m')(11 := Some 1)\<rparr>) 100 10
                   = Inr (Some (int 100 + sint (le_offset (ly_entries (heap m' 1) ! slot)))))"
proof -
  from ex_create_B obtain m' where
    c: "PyLayout_Create ex_env ex_mem_A 11 [10] 16 = Some (Inr (Some 1, m'))" and
    l: "heap m' 1 = ex_layout_B" and t: "ob_type m' = ob_type ex_mem_A"
    by blast
  have h: "ly_cast (heap m' 1) = CastHash" using l by (simp add: ex_layout_B_def)
  have p: "(10, 0) \<in> set (if 0 < sint (16 :: 64 word)
                   then PyDict_SetItem (layout_collect_loop ex_mem_A [] [10]) 11 1
                   else layout_collect_loop ex_mem_A [] [10])"
    by (simp add: PyDict_SetItem_def Py_LAYOUT_def ex_mem_A_def)
  have n: "11 \<notin> set [10 :: addr]" by simp
  have o: "Py_TYPE m' 100 = 11" by (simp add: Py_TYPE_def t ex_mem_A_def)
  from hashed_entries_reachable [OF c h p n o] c h p n o show ?thesis by blast
qed

text \<open>
  C9. Whenever \<open>_PyLayout_Create\<close> returns a layout, the layout's \<open>ly_order\<close> is 1,
  whatever the bases and the size; and it returns \<open>NULL\<close> exactly when the 64-bit
  sum \<open>PyObject_Size(layouts) + size\<close> is not positive, that is when \<open>order\<close> is 0.
\<close>

theorem create_order_is_one:
  "(PyLayout_Create env m type bases sz = Some (Inr (Some result, m'))
      \<longrightarrow> ly_order (heap m' result) = 1)
   \<and> ((\<exists>m'. PyLayout_Create env m type bases sz = Some (Inr (None, m')))
        \<longleftrightarrow> \<not> 0 < order_sum env (layout_collect env m bases) sz)"
proof (intro conjI impI)
  assume "PyLayout_Create env m type bases sz = Some (Inr (Some result, m'))"
  from PyLayout_Create_cases [OF this] obtain m0 where
    "PyLayout_Create_fill m0 result type (layout_collect_loop m [] bases) (sint sz) 1 (rand_value env)
       = Some (Inr (Some result, m'))"
    by blast
  from PyLayout_Create_fill_frame [OF this] show "ly_order (heap m' result) = 1" by simp
next
  show "(\<exists>m'. PyLayout_Create env m type bases sz = Some (Inr (None, m')))
        \<longleftrightarrow> \<not> 0 < order_sum env (layout_collect env m bases) sz"
    by (rule PyLayout_Create_null_iff)
qed

theorem create_order_is_one_witness:
  "(\<exists>m'. PyLayout_Create ex_env ex_mem_A 11 [10] 16 = Some (Inr (Some 1, m'))
        \<and> ly_order (heap m' 1) = 1)
   \<and> (\<exists>m'. PyLayout_Create ex_env ex_mem_empty 10 [] 8 = Some (Inr (Some 0, m'))
        \<and> ly_order (heap m' 0) = 1)
   \<and> \<not> 0 < order_sum ex_env (layout_collect ex_env ex_mem_A [10]) (2 ^ 63 - 1)
   \<and> (\<exists>m'. PyLayout_Create ex_env ex_mem_A 11 [10] (2 ^ 63 - 1) = Some (Inr (None, m')))"
proof -
  from ex_create_B obtain m1 where
    c1: "PyLayout_Create ex_env ex_mem_A 11 [10] 16 = Some (Inr (Some 1, m1))" by blast
  from ex_create_root obtain m2 where
    c2: "PyLayout_Create ex_env ex_mem_empty 10 [] 8 = Some (Inr (Some 0, m2))" by blast
  have c3: "\<not> 0 < order_sum ex_env (layout_collect ex_env ex_mem_A [10]) (2 ^ 63 - 1)"
    by (simp add: order_sum_def layout_collect_def PyObject_Size_def Py_LAYOUT_def PyDict_SetItem_def
        ex_env_def ex_mem_A_def)
  from create_order_is_one [of ex_env ex_mem_A 11 "[10]" 16 1 m1, THEN conjunct1, THEN mp, OF c1]
  have o1: "ly_order (heap m1 1) = 1" .
  from create_order_is_one [of ex_env ex_mem_empty 10 "[]" 8 0 m2, THEN conjunct1, THEN mp, OF c2]
  have o2: "ly_order (heap m2 0) = 1" .
  from create_order_is_one [of ex_env ex_mem_A 11 "[10]" "2 ^ 63 - 1", THEN conjunct2] c3
  have n: "\<exists>m'. PyLayout_Create ex_env ex_mem_A 11 [10] (2 ^ 63 - 1) = Some (Inr (None, m'))"
    by blast
  from c1 o1 c2 o2 c3 n show ?thesis by blast
qed

subsection \<open>What a call leaves unchanged\<close>

text \<open>
  When \<open>_PyLayout_Create\<close> returns, every layout object other than the one
  allocated by the call is what it was before, and so are the \<open>tp_cache\<close> slots,
  flags and object types. This says nothing of the stores that fall outside the
  table of the new layout; those are the subject of C10 below.
\<close>

lemma PyLayout_Create_frame:
  assumes "PyLayout_Create env m type bases sz = Some (Inr (r, m'))"
  shows "(\<forall>p. p \<noteq> brk m \<longrightarrow> heap m' p = heap m p)
         \<and> tp_cache m' = tp_cache m \<and> tp_flags m' = tp_flags m \<and> ob_type m' = ob_type m
         \<and> (\<forall>t \<in> set bases. \<forall>l. Py_LAYOUT m t = Some l \<and> l \<noteq> brk m \<longrightarrow> heap m' l = heap m l)"
proof (cases r)
  case None
  with assms have "m' = m"
    by (auto simp: PyLayout_Create_def Let_def PyLayout_Create_fill_def
        split: if_splits sum.splits option.splits)
  then show ?thesis by simp
next
  case (Some result)
  from PyLayout_Create_cases [OF assms [unfolded Some]] obtain m0 where
    r: "result = brk m" and
    f: "PyLayout_Create_fill m0 result type (layout_collect_loop m [] bases) (sint sz) 1 (rand_value env)
       = Some (Inr (Some result, m'))" and
    o: "frame_outside result m m0"
    by blast
  from PyLayout_Create_fill_frame [OF f] have "frame_outside result m0 m'" by simp
  with o have "frame_outside result m m'" by (rule frame_outside_trans)
  with r show ?thesis by (simp add: frame_outside_def)
qed



subsection \<open>Where the code departs from the specification\<close>

text \<open>
  C1. The specification promises the ordered mode for single inheritance, with the
  entry of a type \<open>A\<close> that has no bases and asks for 8 bytes at offset
  \<open>-8 - reserved_prefix(A)\<close>. In the code, the call for \<open>A\<close> computes
  \<open>order = 1\<close>, allocates a table of one entry and, in \<open>_layout_fill_ordered\<close>,
  stores the entry of \<open>A\<close> (offset \<open>-8\<close>) in \<open>entries[ly_order]\<close>, that is
  \<open>entries[1]\<close>: past the end of the table. The call returns an ordered layout
  whose only slot, slot 0, holds no type (lemma \<open>PyLayout_Create_root\<close> for every
  such call). With the layout object as the call leaves it, the lookup of \<open>A\<close> on
  an object of type \<open>A\<close> returns \<open>NULL\<close>. The call for a type \<open>B\<close> with the single
  base \<open>A\<close> builds a hashed layout, not an ordered one.
\<close>

theorem single_inheritance_not_ordered:
  "returned_layout (PyLayout_Create ex_env ex_mem_empty 10 [] 8) = Some (Inr (Some ex_layout_root))
   \<and> ly_entries ex_layout_root = [\<lparr>le_type = None, le_offset = 77\<rparr>]
   \<and> stray_stores (PyLayout_Create ex_env ex_mem_empty 10 [] 8)
         = Some (Inr [(0, 1, \<lparr>le_type = Some 10, le_offset = - 8\<rparr>)])
   \<and> PyObject_GetTypeData (ex_mem_A\<lparr>ob_type := (\<lambda>obj. 10)\<rparr>) 100 10 = Inr None
   \<and> returned_layout (PyLayout_Create ex_env ex_mem_A 11 [10] 16) = Some (Inr (Some ex_layout_B))
   \<and> ly_cast ex_layout_B = CastHash"
proof -
  have "returned_layout (PyLayout_Create ex_env ex_mem_empty 10 [] 8)
          = Some (Inr (Some ex_layout_root))"
    by (simp add: returned_layout_def layout_defs ex_defs ex_mem_empty_def ex_layout_root_def)
  moreover have "ly_entries ex_layout_root = [\<lparr>le_type = None, le_offset = 77\<rparr>]"
    by (simp add: ex_layout_root_def)
  moreover have "stray_stores (PyLayout_Create ex_env ex_mem_empty 10 [] 8)
                   = Some (Inr [(0, 1, \<lparr>le_type = Some 10, le_offset = - 8\<rparr>)])"
    by (simp add: stray_stores_def layout_defs ex_defs ex_mem_empty_def)
  moreover have "PyObject_GetTypeData (ex_mem_A\<lparr>ob_type := (\<lambda>obj. 10)\<rparr>) 100 10 = Inr None"
    by (simp add: layout_defs ex_defs)
  moreover have "returned_layout (PyLayout_Create ex_env ex_mem_A 11 [10] 16)
                   = Some (Inr (Some ex_layout_B))"
    by (simp add: returned_layout_def layout_defs ex_defs probe_buf.simps probe_entries.simps ex_table)
  moreover have "ly_cast ex_layout_B = CastHash"
    by (simp add: ex_layout_B_def)
  ultimately show ?thesis by blast
qed

text \<open>
  C2. The specification sizes the table by the number \<open>n\<close> of distinct ancestor
  layouts plus one for the type itself when \<open>size > 0\<close>: \<open>n\<close> slots in ordered mode,
  \<open>2n\<close> in hashed mode. In the code \<open>entries\<close> is the 0-or-1 value \<open>order\<close>, so
  the table has 1 or 2 slots (lemma \<open>PyLayout_Create_table_size\<close>). For \<open>B\<close> with the
  base \<open>A\<close> and 16 bytes, \<open>n = 2\<close> and the layout is hashed: the table has 2 slots,
  not 4.
\<close>

theorem table_size_not_ancestor_count:
  "returned_layout (PyLayout_Create ex_env ex_mem_A 11 [10] 16) = Some (Inr (Some ex_layout_B))
   \<and> ly_cast ex_layout_B = CastHash
   \<and> length (layout_collect_loop ex_mem_A [] [10]) = 1
   \<and> Py_SIZE ex_layout_B = 2"
proof -
  have "returned_layout (PyLayout_Create ex_env ex_mem_A 11 [10] 16)
          = Some (Inr (Some ex_layout_B))"
    by (simp add: returned_layout_def layout_defs ex_defs probe_buf.simps probe_entries.simps ex_table)
  moreover have "ly_cast ex_layout_B = CastHash" "Py_SIZE ex_layout_B = 2"
    by (simp_all add: ex_layout_B_def Py_SIZE_def)
  moreover have "length (layout_collect_loop ex_mem_A [] [10]) = 1"
    by (simp add: layout_defs ex_defs)
  ultimately show ?thesis by blast
qed

text \<open>
  C4. The specification has every candidate shift evaluated with the new id and all
  ancestor ids. In the code the dictionary cursor \<open>pos\<close> is not reset between the
  rounds of the \<open>for\<close> loop, so only the round for shift 0 places the ancestors; every
  later round has cost 0. With new id 0, one ancestor with id 4 and a table of 2
  slots, shift 0 and shift 1 both collide (cost 2) and shift 2 is the first without
  collision (cost 1, the item count): the search as specified returns 2, the code
  returns 1.
\<close>

theorem fast_hash_cursor_not_reset:
  "layout_fast_hash ex_mem_A4 [(10, 0)] 2 0 = Some (Inr 1)
   \<and> layout_fast_hash_spec ex_mem_A4 [(10, 0)] 2 0 = Some (Inr 2)
   \<and> fast_hash_cost ex_mem_A4 [(10, 0)] 2 0 0 1 = Some (Inr 2)
   \<and> fast_hash_cost ex_mem_A4 [(10, 0)] 2 0 1 1 = Some (Inr 0)
   \<and> fast_hash_cost ex_mem_A4 [(10, 0)] 2 0 0 2 = Some (Inr 1)"
proof -
  have "layout_fast_hash ex_mem_A4 [(10, 0)] 2 0 = Some (Inr 1)"
    by (simp add: layout_defs ex_defs ex_mem_A4_def probe_buf.simps)
  moreover have "layout_fast_hash_spec ex_mem_A4 [(10, 0)] 2 0 = Some (Inr 2)"
    by (simp add: layout_fast_hash_spec_def layout_defs ex_defs ex_mem_A4_def probe_buf.simps)
  moreover have "fast_hash_cost ex_mem_A4 [(10, 0)] 2 0 0 1 = Some (Inr 2)"
    "fast_hash_cost ex_mem_A4 [(10, 0)] 2 0 1 1 = Some (Inr 0)"
    "fast_hash_cost ex_mem_A4 [(10, 0)] 2 0 0 2 = Some (Inr 1)"
    by (simp_all add: layout_defs ex_defs ex_mem_A4_def probe_buf.simps)
  ultimately show ?thesis by blast
qed

text \<open>
  C6. The specification promises, for a type that reaches an ancestor \<open>A\<close> through
  two bases, a layout with exactly one entry for \<open>A\<close>. In the code only the layouts of
  the direct bases are collected (here those of \<open>B\<close> and \<open>C\<close>; \<open>A\<close> is not among
  them), and with two collected layouts the call does not return: both have
  \<open>ly_order = 1\<close>, the mode is hashed, the scratch buffer of \<open>_layout_fast_hash\<close> has
  2 bytes, and after the new id and the id of \<open>B\<close> are placed the probe for the id of
  \<open>C\<close> finds no free byte and loops. No call with two or more collected layouts
  returns a hashed layout (lemma \<open>PyLayout_Create_hashed_one_base\<close>: the scratch
  buffer is too small), and none returns an ordered layout with all its entries
  inside the one-entry table (lemma \<open>PyLayout_Create_two_bases\<close>).
\<close>

theorem diamond_never_returns:
  "layout_collect_loop ex_mem_diamond [] [11, 12] = [(11, 1), (12, 2)]
   \<and> PyLayout_Create (ex_env\<lparr>rand_value := 7\<rparr>) ex_mem_diamond 13 [11, 12] 8 = None"
proof -
  have "layout_collect_loop ex_mem_diamond [] [11, 12] = [(11, 1), (12, 2)]"
    by (simp add: layout_defs ex_mem_diamond_def)
  moreover have "PyLayout_Create (ex_env\<lparr>rand_value := 7\<rparr>) ex_mem_diamond 13 [11, 12] 8 = None"
    by (simp add: layout_defs ex_defs ex_mem_diamond_def ex_layout_C_def ex_buf ex_probe_free
        ex_probe_full)
  ultimately show ?thesis by blast
qed

text \<open>
  C7. The specification makes a failed allocation fatal. In the code
  \<open>_layout_collect\<close> returns \<open>NULL\<close> when \<open>PyDict_New\<close> fails and the caller does
  not test it: \<open>PyObject_Size(NULL)\<close> is \<open>-1\<close>, so for \<open>size\<close> 0 (or 1) \<open>order\<close>
  is 0 and the call returns \<open>NULL\<close> with the memory untouched, exactly as when no
  layout is required, although the base \<open>A\<close> has a layout. For a larger \<open>size\<close>,
  and when \<open>PyObject_NewVar\<close> fails, the code goes on to use the \<open>NULL\<close> pointer.
\<close>

theorem dict_failure_returns_null:
  "PyLayout_Create (ex_env\<lparr>dict_new_ok := False\<rparr>) ex_mem_A 11 [10] 0 = Some (Inr (None, ex_mem_A))
   \<and> PyLayout_Create (ex_env\<lparr>dict_new_ok := False\<rparr>) ex_mem_A 11 [10] 16 = Some (Inl NullPointer)
   \<and> PyLayout_Create (ex_env\<lparr>newvar_ok := False\<rparr>) ex_mem_A 11 [10] 16 = Some (Inl NullPointer)"
proof -
  have "PyLayout_Create (ex_env\<lparr>dict_new_ok := False\<rparr>) ex_mem_A 11 [10] 0
          = Some (Inr (None, ex_mem_A))"
    by (simp add: PyLayout_Create_def order_sum_def layout_collect_def PyObject_Size_def ex_env_def)
  moreover have "PyLayout_Create (ex_env\<lparr>dict_new_ok := False\<rparr>) ex_mem_A 11 [10] 16
          = Some (Inl NullPointer)"
    by (simp add: PyLayout_Create_def order_sum_def layout_collect_def PyObject_Size_def ex_env_def
        layout_check_ordered_def)
  moreover have "PyLayout_Create (ex_env\<lparr>newvar_ok := False\<rparr>) ex_mem_A 11 [10] 16
          = Some (Inl NullPointer)"
    by (simp add: layout_defs ex_defs)
  ultimately show ?thesis by blast
qed


end
